theory Spec2Isabelle
  imports Main "HOL-Library.Sublist"
begin

section \<open>Values, errors and collaborator responses\<close>

text \<open>
  The program is \<^verbatim>\<open>src/main.js\<close>: a sequential loop over accounts that authenticates,
  queries the daily-task status, creates an agent and a request, and keeps per-account
  statistics. Calls of \<^verbatim>\<open>logger\<close> only write to the console and are left out.

  JavaScript values that the program only tests for truthiness or for \<^verbatim>\<open>undefined\<close>
  (flags, identifiers, tokens, hashes, generated texts) are \<open>jsval\<close>. Numbers are
  integers; NaN, falsy like 0, and objects and arrays, truthy like \<^verbatim>\<open>true\<close>, have no
  constructor of their own.
\<close>

datatype jsval = JUndefined | JNull | JBool bool | JNum int | JStr string

fun truthy :: "jsval \<Rightarrow> bool" where
  "truthy JUndefined = False"
| "truthy JNull = False"
| "truthy (JBool b) = b"
| "truthy (JNum n) = (n \<noteq> 0)"
| "truthy (JStr s) = (s \<noteq> [])"

text \<open>A thrown value: an error with its message, or the \<^verbatim>\<open>TypeError\<close> of the runtime
  for a property access or a destructuring of \<^verbatim>\<open>undefined\<close>/\<^verbatim>\<open>null\<close>.\<close>

datatype error = Thrown string | TypeError

text \<open>
  A response \<^verbatim>\<open>resp\<close> of the remote API as the guards \<^verbatim>\<open>!resp || !resp.data\<close> see it:
  \<open>Falsy_response\<close> when \<^verbatim>\<open>resp\<close> itself is falsy, \<open>Falsy_data\<close> when \<^verbatim>\<open>resp.data\<close>
  is falsy or absent, \<open>Data d\<close> when \<^verbatim>\<open>resp.data\<close> is truthy, \<open>d\<close> holding the
  properties the program reads from it (an absent property is \<open>JUndefined\<close>).
\<close>

datatype 'd response = Falsy_response | Falsy_data | Data 'd

text \<open>
  Numeric properties: \<^verbatim>\<open>token_expire_time\<close> and \<^verbatim>\<open>finish_time\<close> are integer seconds
  (integer-valued doubles), or \<open>None\<close> when the property is absent (\<^verbatim>\<open>undefined\<close>);
  arithmetic on \<open>None\<close> gives NaN, again \<open>None\<close>, and every comparison with it is false.
\<close>

record login_data =
  token :: jsval
  token_expire_time :: "int option"

record task_data =
  is_create_agent :: jsval
  is_create_request :: jsval
  finish_time :: "int option"

record user_data =
  data_uid :: jsval
  total_point :: jsval
  data_days :: jsval

text \<open>The value of \<^verbatim>\<open>JSON.parse\<close> on the generated text, through the three properties that
  \<^verbatim>\<open>createAgent\<close> and \<^verbatim>\<open>createRequest\<close> destructure from it.\<close>

record ai_content =
  name_agent :: jsval
  title :: jsval
  description :: jsval

text \<open>\<^verbatim>\<open>{ ...loginResponse.data, address }\<close>, the session carried from cycle to cycle.\<close>

record tokenData =
  td_token :: jsval
  td_token_expire_time :: "int option"
  td_address :: string

text \<open>One entry of \<^verbatim>\<open>accountsStats\<close> (main.js, lines 444-455). \<open>lastRun\<close> is
  \<^verbatim>\<open>null\<close> or the rendering of an instant, kept here as that instant. The counters are
  JavaScript numbers that only ever grow by 1 from 0: integers.\<close>

record stats =
  uid :: jsval
  totalPoint :: jsval
  days :: jsval
  agents :: int
  requests :: int
  txs :: int
  errors :: int
  lastRun :: "int option"
  startTime :: int
  cooldownSeconds :: "int option"

section \<open>The environment and the program state\<close>

text \<open>
  Everything observable that the program does is an event: a call of a collaborator with
  its arguments, or a timed wait. The trace is the list of events so far.
\<close>

datatype event =
    GetNonce string
  | Sign string jsval
  | Login string jsval jsval
  | SetInviter jsval
  | VerifyDailyTask jsval string
  | GenerateAIResponse string string
  | CreateNewAgent jsval jsval jsval
  | CreateNewRequest jsval jsval jsval
  | ContractCall string "jsval list"
  | GetUserData jsval
  | Sleep int

text \<open>
  The collaborators are not part of the program. Each one answers a call as a function of
  the whole history up to and including that call, so that it may answer every call
  differently; \<open>Inl\<close> is a rejected promise or a throw. \<open>date_now\<close> is \<^verbatim>\<open>Date.now()\<close>
  in milliseconds, again a function of the history (two reads with no event between them
  agree), \<open>wallet_address\<close> is \<^verbatim>\<open>new ethers.Wallet(key).address\<close>, and
  \<open>JSON_parse\<close> is \<^verbatim>\<open>JSON.parse\<close> (\<open>None\<close> for the JSON value \<^verbatim>\<open>null\<close>).
  \<open>sign_reply\<close> and \<open>contractCall_reply\<close> answer \<open>None\<close> for a nullish result,
  otherwise the \<^verbatim>\<open>signature\<close> and the \<^verbatim>\<open>hash\<close> property of the result.
\<close>

record env =
  wallet_address :: "string \<Rightarrow> error + string"
  JSON_parse :: "string \<Rightarrow> error + ai_content option"
  date_now :: "event list \<Rightarrow> int"
  getNonce_reply :: "event list \<Rightarrow> error + jsval response"
  sign_reply :: "event list \<Rightarrow> error + jsval option"
  login_reply :: "event list \<Rightarrow> error + login_data response"
  setInviter_reply :: "event list \<Rightarrow> error + unit"
  verifyDailyTask_reply :: "event list \<Rightarrow> error + task_data response"
  generateAIResponse_reply :: "event list \<Rightarrow> error + string"
  createNewAgent_reply :: "event list \<Rightarrow> error + jsval response"
  createNewRequest_reply :: "event list \<Rightarrow> error + jsval response"
  contractCall_reply :: "event list \<Rightarrow> error + jsval option"
  getUserData_reply :: "event list \<Rightarrow> error + user_data response"

text \<open>
  The mutable state: the global \<^verbatim>\<open>accountsStats\<close> object, the two variables of
  \<^verbatim>\<open>main\<close> that live across cycles, and the trace.
\<close>

record state =
  trace :: "event list"
  accountsStats :: "nat \<Rightarrow> stats option"
  tokenDataArray :: "tokenData option list"
  cycleCount :: nat

text \<open>An asynchronous function: it runs on the state, and returns a value or throws.\<close>

type_synonym 'a eff = "state \<Rightarrow> (error + 'a) \<times> state"

definition ret :: "'a \<Rightarrow> 'a eff" where
  "ret x s = (Inr x, s)"

definition throw :: "error \<Rightarrow> 'a eff" where
  "throw e s = (Inl e, s)"

definition lift_result :: "error + 'a \<Rightarrow> 'a eff" where
  "lift_result r s = (r, s)"

definition bind_eff :: "'a eff \<Rightarrow> ('a \<Rightarrow> 'b eff) \<Rightarrow> 'b eff" where
  "bind_eff m f s = (case m s of (Inl e, s') \<Rightarrow> (Inl e, s') | (Inr x, s') \<Rightarrow> f x s')"

definition catch_eff :: "'a eff \<Rightarrow> (error \<Rightarrow> 'a eff) \<Rightarrow> 'a eff" where
  "catch_eff m h s = (case m s of (Inl e, s') \<Rightarrow> h e s' | (Inr x, s') \<Rightarrow> (Inr x, s'))"

definition call :: "event \<Rightarrow> (event list \<Rightarrow> error + 'a) \<Rightarrow> 'a eff" where
  "call ev reply s = (reply (trace s @ [ev]), s\<lparr>trace := trace s @ [ev]\<rparr>)"

definition sleep :: "int \<Rightarrow> unit eff" where
  "sleep ms s = (Inr (), s\<lparr>trace := trace s @ [Sleep ms]\<rparr>)"

text \<open>\<^verbatim>\<open>accountsStats[accountIndex].field = ...\<close> and \<^verbatim>\<open>...field++\<close>: a \<^verbatim>\<open>TypeError\<close> when
  the account has no entry.\<close>

definition update_stats :: "nat \<Rightarrow> (stats \<Rightarrow> stats) \<Rightarrow> unit eff" where
  "update_stats accountIndex f s =
     (case accountsStats s accountIndex of
        None \<Rightarrow> (Inl TypeError, s)
      | Some st \<Rightarrow> (Inr (), s\<lparr>accountsStats := (accountsStats s)(accountIndex \<mapsto> f st)\<rparr>))"

section \<open>JavaScript numbers\<close>

text \<open>
  Times are JavaScript numbers: IEEE doubles. The ones that occur here are integers, and
  \<^verbatim>\<open>a + b\<close> and \<^verbatim>\<open>a - b\<close> are the exact result rounded to the nearest double, ties to
  the even mantissa. \<open>double_exponent a 0\<close> is the least \<open>k\<close> for which \<open>a div 2 ^ k\<close>
  fits the 53 bits of a mantissa; \<open>round_double\<close> rounds an integer to the nearest double.
  No overflow to infinity arises from adding a day to a finite double or from subtracting
  the clock.
\<close>

function double_exponent :: "int \<Rightarrow> nat \<Rightarrow> nat" where
  "double_exponent a k = (if a div 2 ^ k < 2 ^ 53 then k else double_exponent a (k + 1))"
  by pat_completeness auto
termination
proof (relation "measure (\<lambda>(a, k). nat (a div 2 ^ k))")
  show "wf (measure (\<lambda>(a, k). nat (a div 2 ^ k)))" by simp
next
  fix a :: int and k :: nat
  assume "\<not> a div 2 ^ k < 2 ^ 53"
  then have p: "0 < a div 2 ^ k" by simp
  have "a div (2 ^ k * 2) = a div 2 ^ k div 2"
    by (rule zdiv_zmult2_eq) simp
  then have "a div 2 ^ (k + 1) = a div 2 ^ k div 2"
    by (simp add: mult.commute)
  with p have "a div 2 ^ (k + 1) < a div 2 ^ k" by simp
  with p show "((a, k + 1), (a, k)) \<in> measure (\<lambda>(a, k). nat (a div 2 ^ k))" by simp
qed

declare double_exponent.simps [simp del]

definition round_double :: "int \<Rightarrow> int" where
  "round_double x =
     (let a = \<bar>x\<bar>; k = double_exponent a 0; q = a div 2 ^ k; r = a mod 2 ^ k
      in if 2 * r > 2 ^ k \<or> (2 * r = 2 ^ k \<and> odd q)
         then sgn x * (q + 1) * 2 ^ k else sgn x * q * 2 ^ k)"

definition js_add :: "int \<Rightarrow> int \<Rightarrow> int" where
  "js_add x y = round_double (x + y)"

definition js_sub :: "int \<Rightarrow> int \<Rightarrow> int" where
  "js_sub x y = round_double (x - y)"

section \<open>The retry primitive (main.js, lines 42-60)\<close>

definition MAX_RETRIES :: nat where
  "MAX_RETRIES = 3"

definition RETRY_DELAY :: int where
  "RETRY_DELAY = 5000"

text \<open>The \<^verbatim>\<open>for\<close> loop of \<^verbatim>\<open>retryWithBackoff\<close> from index \<open>i\<close>. A loop that ends without
  returning yields \<^verbatim>\<open>undefined\<close>, here \<open>None\<close>.\<close>

function retry_loop :: "'a eff \<Rightarrow> nat \<Rightarrow> int \<Rightarrow> nat \<Rightarrow> 'a option eff" where
  "retry_loop fn retries delay i s =
     (if i < retries then
        (case fn s of
           (Inr v, s') \<Rightarrow> (Inr (Some v), s')
         | (Inl e, s') \<Rightarrow>
             if i = retries - 1 then (Inl e, s')
             else retry_loop fn retries delay (i + 1) (snd (sleep (delay * 2 ^ i) s')))
      else (Inr None, s))"
  by pat_completeness auto
termination
  by (relation "measure (\<lambda>(fn, retries, delay, i, s). retries - i)") auto

declare retry_loop.simps [simp del]

definition retryWithBackoff :: "'a eff \<Rightarrow> nat \<Rightarrow> int \<Rightarrow> 'a option eff" where
  "retryWithBackoff fn retries delay = retry_loop fn retries delay 0"

section \<open>Collaborator calls\<close>

definition getNonce :: "env \<Rightarrow> string \<Rightarrow> jsval response eff" where
  "getNonce env addr = call (GetNonce addr) (getNonce_reply env)"

definition sign_with_private_key :: "env \<Rightarrow> string \<Rightarrow> jsval \<Rightarrow> jsval option eff" where
  "sign_with_private_key env private_key nonce = call (Sign private_key nonce) (sign_reply env)"

definition login :: "env \<Rightarrow> string \<Rightarrow> jsval \<Rightarrow> jsval \<Rightarrow> login_data response eff" where
  "login env addr signature nonce = call (Login addr signature nonce) (login_reply env)"

definition setInviter :: "env \<Rightarrow> jsval \<Rightarrow> unit eff" where
  "setInviter env tok = call (SetInviter tok) (setInviter_reply env)"

definition verifyDailyTask :: "env \<Rightarrow> jsval \<Rightarrow> string \<Rightarrow> task_data response eff" where
  "verifyDailyTask env tok addr = call (VerifyDailyTask tok addr) (verifyDailyTask_reply env)"

definition generateAIResponse :: "env \<Rightarrow> string \<Rightarrow> string \<Rightarrow> string eff" where
  "generateAIResponse env prompt kind =
     call (GenerateAIResponse prompt kind) (generateAIResponse_reply env)"

definition createNewAgent :: "env \<Rightarrow> jsval \<Rightarrow> jsval \<Rightarrow> jsval \<Rightarrow> jsval response eff" where
  "createNewAgent env tok name desc = call (CreateNewAgent tok name desc) (createNewAgent_reply env)"

definition createNewRequest :: "env \<Rightarrow> jsval \<Rightarrow> jsval \<Rightarrow> jsval \<Rightarrow> jsval response eff" where
  "createNewRequest env tok ttl desc =
     call (CreateNewRequest tok ttl desc) (createNewRequest_reply env)"

definition contractCall :: "env \<Rightarrow> string \<Rightarrow> jsval list \<Rightarrow> jsval option eff" where
  "contractCall env method args = call (ContractCall method args) (contractCall_reply env)"

definition getUserData :: "env \<Rightarrow> jsval \<Rightarrow> user_data response eff" where
  "getUserData env tok = call (GetUserData tok) (getUserData_reply env)"

text \<open>\<^verbatim>\<open>Date.now()\<close>, and \<^verbatim>\<open>Math.floor(Date.now() / 1000)\<close>.\<close>

definition Date_now :: "env \<Rightarrow> int eff" where
  "Date_now env s = (Inr (date_now env (trace s)), s)"

definition now_seconds :: "env \<Rightarrow> int eff" where
  "now_seconds env s = (Inr (date_now env (trace s) div 1000), s)"

text \<open>The data of a response that passes \<^verbatim>\<open>!resp || !resp.data\<close>; the response may be
  the \<^verbatim>\<open>undefined\<close> of a retry loop that made no attempt.\<close>

fun response_data :: "'d response option \<Rightarrow> 'd option" where
  "response_data (Some (Data d)) = Some d"
| "response_data _ = None"

text \<open>\<^verbatim>\<open>txResult && txResult.hash\<close>.\<close>

fun tx_hash_ok :: "jsval option option \<Rightarrow> bool" where
  "tx_hash_ok (Some (Some h)) = truthy h"
| "tx_hash_ok _ = False"

section \<open>Authentication (main.js, lines 93-159)\<close>

definition checkTokenValid :: "env \<Rightarrow> int option \<Rightarrow> bool eff" where
  "checkTokenValid env expire_time =
     bind_eff (now_seconds env) (\<lambda>now.
       case expire_time of
         None \<Rightarrow> ret True
       | Some t \<Rightarrow> if now \<ge> t then ret False else ret True)"

definition getToken :: "env \<Rightarrow> string \<Rightarrow> nat \<Rightarrow> tokenData option eff" where
  "getToken env private_key accountIndex =
     catch_eff
       (if private_key = [] then ret None
        else
          bind_eff (lift_result (wallet_address env private_key)) (\<lambda>addr.
          bind_eff (getNonce env addr) (\<lambda>message.
            case message of
              Data nonce \<Rightarrow>
                bind_eff (sign_with_private_key env private_key nonce) (\<lambda>signed.
                  case signed of
                    None \<Rightarrow> throw TypeError
                  | Some signature \<Rightarrow>
                      bind_eff (login env addr signature nonce) (\<lambda>loginResponse.
                        case loginResponse of
                          Data d \<Rightarrow>
                            if truthy (token d) then
                              bind_eff (setInviter env (token d)) (\<lambda>_.
                                ret (Some \<lparr>td_token = token d,
                                           td_token_expire_time = token_expire_time d,
                                           td_address = addr\<rparr>))
                            else ret None
                        | _ \<Rightarrow> ret None))
            | _ \<Rightarrow> ret None)))
       (\<lambda>error. ret None)"

section \<open>The two daily tasks (main.js, lines 161-275)\<close>

definition inc_agents :: "stats \<Rightarrow> stats" where
  "inc_agents st = st\<lparr>agents := agents st + 1\<rparr>"

definition inc_requests :: "stats \<Rightarrow> stats" where
  "inc_requests st = st\<lparr>requests := requests st + 1\<rparr>"

definition inc_txs :: "stats \<Rightarrow> stats" where
  "inc_txs st = st\<lparr>txs := txs st + 1\<rparr>"

definition inc_errors :: "stats \<Rightarrow> stats" where
  "inc_errors st = st\<lparr>errors := errors st + 1\<rparr>"

text \<open>\<^verbatim>\<open>agent ?? { name_agent: '', description: '' }\<close> and its sibling for requests.\<close>

definition default_agent :: ai_content where
  "default_agent = \<lparr>name_agent = JStr [], title = JUndefined, description = JStr []\<rparr>"

definition default_request :: ai_content where
  "default_request = \<lparr>name_agent = JUndefined, title = JStr [], description = JStr []\<rparr>"

definition createAgent :: "env \<Rightarrow> jsval \<Rightarrow> nat \<Rightarrow> bool eff" where
  "createAgent env session_token accountIndex =
     catch_eff
       (bind_eff (generateAIResponse env ''create agent'' ''createAgent'') (\<lambda>agentData.
        bind_eff (lift_result (JSON_parse env agentData)) (\<lambda>agent.
          let c = (case agent of None \<Rightarrow> default_agent | Some a \<Rightarrow> a) in
          if \<not> truthy (name_agent c) \<or> \<not> truthy (description c) then ret False
          else
            bind_eff (retryWithBackoff
                        (createNewAgent env session_token (name_agent c) (description c))
                        MAX_RETRIES RETRY_DELAY) (\<lambda>agentResponse.
              case response_data agentResponse of
                None \<Rightarrow> ret False
              | Some agentID \<Rightarrow>
                  if truthy agentID then
                    bind_eff (retryWithBackoff
                                (contractCall env ''addNewAgent''
                                   [agentID, name_agent c, description c])
                                MAX_RETRIES RETRY_DELAY) (\<lambda>txResult.
                      if tx_hash_ok txResult then
                        bind_eff (update_stats accountIndex inc_agents) (\<lambda>_.
                        bind_eff (update_stats accountIndex inc_txs) (\<lambda>_.
                        ret True))
                      else ret False)
                  else ret False))))
       (\<lambda>error. bind_eff (update_stats accountIndex inc_errors) (\<lambda>_. ret False))"

definition createRequest :: "env \<Rightarrow> jsval \<Rightarrow> nat \<Rightarrow> bool eff" where
  "createRequest env session_token accountIndex =
     catch_eff
       (bind_eff (generateAIResponse env ''create request'' ''createRequest'') (\<lambda>requestData.
        bind_eff (lift_result (JSON_parse env requestData)) (\<lambda>request.
          let c = (case request of None \<Rightarrow> default_request | Some a \<Rightarrow> a) in
          if \<not> truthy (title c) \<or> \<not> truthy (description c) then ret False
          else
            bind_eff (retryWithBackoff
                        (createNewRequest env session_token (title c) (description c))
                        MAX_RETRIES RETRY_DELAY) (\<lambda>requestResponse.
              case response_data requestResponse of
                None \<Rightarrow> ret False
              | Some requestID \<Rightarrow>
                  if truthy requestID then
                    bind_eff (retryWithBackoff
                                (contractCall env ''addNewRequest'' [requestID, title c])
                                MAX_RETRIES RETRY_DELAY) (\<lambda>txResult.
                      if tx_hash_ok txResult then
                        bind_eff (update_stats accountIndex inc_requests) (\<lambda>_.
                        bind_eff (update_stats accountIndex inc_txs) (\<lambda>_.
                        ret True))
                      else ret False)
                  else ret False))))
       (\<lambda>error. bind_eff (update_stats accountIndex inc_errors) (\<lambda>_. ret False))"

section \<open>The daily tasks of one account (main.js, lines 277-349)\<close>

text \<open>The part of \<^verbatim>\<open>executeDailyTasks\<close> after the two validations (lines 304-341). The
  variable \<^verbatim>\<open>taskCompleted\<close> only selects a banner and is left out.\<close>

definition run_tasks :: "env \<Rightarrow> jsval \<Rightarrow> nat \<Rightarrow> task_data \<Rightarrow> bool eff" where
  "run_tasks env session_token accountIndex d =
     bind_eff (now_seconds env) (\<lambda>now.
       let cooldownEndTime = map_option (\<lambda>f. js_add f (24 * 60 * 60)) (finish_time d);
           secondsUntilNextTask = map_option (\<lambda>c. js_sub c now) cooldownEndTime
       in
       bind_eff (if \<not> truthy (is_create_agent d)
                 then createAgent env session_token accountIndex else ret False) (\<lambda>agentResult.
       bind_eff (if \<not> truthy (is_create_request d)
                 then createRequest env session_token accountIndex else ret False) (\<lambda>requestResult.
       bind_eff (Date_now env) (\<lambda>t.
       bind_eff (update_stats accountIndex (\<lambda>st. st\<lparr>lastRun := Some t\<rparr>)) (\<lambda>_.
       bind_eff (update_stats accountIndex
                   (\<lambda>st. st\<lparr>cooldownSeconds := secondsUntilNextTask\<rparr>)) (\<lambda>_.
       ret True))))))"

definition executeDailyTasks :: "env \<Rightarrow> tokenData \<Rightarrow> nat \<Rightarrow> bool eff" where
  "executeDailyTasks env td accountIndex =
     catch_eff
       (bind_eff (retryWithBackoff (verifyDailyTask env (td_token td) (td_address td))
                    MAX_RETRIES RETRY_DELAY) (\<lambda>dailyTaskResponse.
          case response_data dailyTaskResponse of
            None \<Rightarrow> ret False
          | Some d \<Rightarrow>
              if is_create_agent d = JUndefined \<or> is_create_request d = JUndefined
              then ret False
              else run_tasks env (td_token td) accountIndex d))
       (\<lambda>error. bind_eff (update_stats accountIndex inc_errors) (\<lambda>_. ret False))"

section \<open>One account, one cycle, the main loop (main.js, lines 351-533)\<close>

text \<open>Lines 361-380: the session to use, or \<open>None\<close> for the early \<^verbatim>\<open>return null\<close>.\<close>

definition authenticate :: "env \<Rightarrow> string \<Rightarrow> nat \<Rightarrow> tokenData option \<Rightarrow> tokenData option eff" where
  "authenticate env private_key accountIndex carried =
     (case carried of
        None \<Rightarrow> getToken env private_key accountIndex
      | Some td \<Rightarrow>
          bind_eff (checkTokenValid env (td_token_expire_time td)) (\<lambda>isValid.
            if \<not> isValid then getToken env private_key accountIndex else ret (Some td)))"

text \<open>Lines 391-407: the profile refresh, with its own \<^verbatim>\<open>try\<close>/\<^verbatim>\<open>catch\<close>.\<close>

definition refresh_user_data :: "env \<Rightarrow> tokenData \<Rightarrow> nat \<Rightarrow> unit eff" where
  "refresh_user_data env td accountIndex =
     catch_eff
       (bind_eff (getUserData env (td_token td)) (\<lambda>userData.
          case userData of
            Data u \<Rightarrow>
              bind_eff (update_stats accountIndex (\<lambda>st. st\<lparr>uid := data_uid u\<rparr>)) (\<lambda>_.
              bind_eff (update_stats accountIndex (\<lambda>st. st\<lparr>totalPoint := total_point u\<rparr>)) (\<lambda>_.
              update_stats accountIndex (\<lambda>st. st\<lparr>days := data_days u\<rparr>)))
          | _ \<Rightarrow> ret ()))
       (\<lambda>error. ret ())"

text \<open>Lines 382-412, once the session \<open>td\<close> is known.\<close>

definition after_auth :: "env \<Rightarrow> tokenData \<Rightarrow> nat \<Rightarrow> tokenData option eff" where
  "after_auth env td accountIndex =
     bind_eff (executeDailyTasks env td accountIndex) (\<lambda>taskResult.
       if \<not> taskResult then ret (Some td)
       else bind_eff (refresh_user_data env td accountIndex) (\<lambda>_. ret (Some td)))"

text \<open>Lines 414-420: the handler of the outer \<^verbatim>\<open>try\<close>; \<open>current\<close> is the value that the
  variable \<^verbatim>\<open>tokenData\<close> holds when the error is caught.\<close>

definition account_failed :: "nat \<Rightarrow> tokenData option \<Rightarrow> tokenData option eff" where
  "account_failed accountIndex current =
     bind_eff (update_stats accountIndex inc_errors) (\<lambda>_. ret current)"

definition processAccount :: "env \<Rightarrow> string \<Rightarrow> nat \<Rightarrow> tokenData option \<Rightarrow> tokenData option eff" where
  "processAccount env private_key accountIndex carried s =
     (case authenticate env private_key accountIndex carried s of
        (Inl error, s1) \<Rightarrow> account_failed accountIndex carried s1
      | (Inr None, s1) \<Rightarrow> (Inr None, s1)
      | (Inr (Some td), s1) \<Rightarrow>
          catch_eff (after_auth env td accountIndex)
            (\<lambda>error. account_failed accountIndex (Some td)) s1)"

text \<open>Reading and writing \<^verbatim>\<open>tokenDataArray[i]\<close>: a read past the end is \<^verbatim>\<open>undefined\<close>, a
  write past the end extends the array.\<close>

definition array_get :: "tokenData option list \<Rightarrow> nat \<Rightarrow> tokenData option" where
  "array_get xs i = (if i < length xs then xs ! i else None)"

definition array_set :: "tokenData option list \<Rightarrow> nat \<Rightarrow> tokenData option \<Rightarrow> tokenData option list" where
  "array_set xs i v =
     (if i < length xs then xs[i := v] else xs @ replicate (i - length xs) None @ [v])"

text \<open>The \<^verbatim>\<open>for\<close> loop over the accounts (lines 469-479), from index \<open>i\<close>.\<close>

function process_accounts :: "env \<Rightarrow> string list \<Rightarrow> nat \<Rightarrow> unit eff" where
  "process_accounts env keys i s =
     (if i < length keys then
        (case processAccount env (keys ! i) i (array_get (tokenDataArray s) i) s of
           (Inl e, s1) \<Rightarrow> (Inl e, s1)
         | (Inr td, s1) \<Rightarrow>
             process_accounts env keys (i + 1)
               (snd ((if i < length keys - 1 then sleep 3000 else ret ())
                       (s1\<lparr>tokenDataArray := array_set (tokenDataArray s1) i td\<rparr>))))
      else (Inr (), s))"
  by pat_completeness auto
termination
  by (relation "measure (\<lambda>(env, keys, i, s). length keys - i)") auto

declare process_accounts.simps [simp del]

text \<open>Lines 481-522 only print, except for the read of \<^verbatim>\<open>accountsStats[0].startTime\<close>.\<close>

definition summary :: "unit eff" where
  "summary s = (case accountsStats s 0 of None \<Rightarrow> (Inl TypeError, s) | Some st \<Rightarrow> (Inr (), s))"

definition countdownTimer :: "int \<Rightarrow> unit eff" where
  "countdownTimer hours = sleep (hours * 60 * 60 * 1000)"

text \<open>One iteration of \<^verbatim>\<open>while (true)\<close> (lines 464-531).\<close>

definition main_iteration :: "env \<Rightarrow> string list \<Rightarrow> int \<Rightarrow> unit eff" where
  "main_iteration env keys wait_hours =
     catch_eff
       (\<lambda>s. bind_eff (process_accounts env keys 0) (\<lambda>_.
             bind_eff summary (\<lambda>_. countdownTimer wait_hours))
               (s\<lparr>cycleCount := cycleCount s + 1\<rparr>))
       (\<lambda>error. sleep 300000)"

text \<open>The state when the module is loaded, and lines 442-461 of \<^verbatim>\<open>main\<close>.\<close>

definition initial_state :: state where
  "initial_state = \<lparr>trace = [], accountsStats = Map.empty, tokenDataArray = [], cycleCount = 0\<rparr>"

definition new_stats :: "int \<Rightarrow> stats" where
  "new_stats t = \<lparr>uid = JNull, totalPoint = JNum 0, days = JNum 0, agents = 0, requests = 0,
                  txs = 0, errors = 0, lastRun = None, startTime = t, cooldownSeconds = Some 0\<rparr>"

definition main_setup :: "env \<Rightarrow> string list \<Rightarrow> state \<Rightarrow> state" where
  "main_setup env keys s =
     s\<lparr>accountsStats :=
          foldl (\<lambda>m index. m(index \<mapsto> new_stats (date_now env (trace s))))
            (accountsStats s) [0..<length keys],
        tokenDataArray := replicate (length keys) None,
        cycleCount := 0\<rparr>"

text \<open>
  The loop never ends. \<open>main_loop env keys wait_hours n s\<close> is the state once \<open>n\<close>
  iterations have completed, and \<open>main\<close> is the run of the program observed at that
  moment; with no private key \<^verbatim>\<open>main\<close> returns before the loop (line 439).
\<close>

primrec main_loop :: "env \<Rightarrow> string list \<Rightarrow> int \<Rightarrow> nat \<Rightarrow> state \<Rightarrow> state" where
  "main_loop env keys wait_hours 0 s = s"
| "main_loop env keys wait_hours (Suc n) s =
     snd (main_iteration env keys wait_hours (main_loop env keys wait_hours n s))"

definition main :: "env \<Rightarrow> string list \<Rightarrow> int \<Rightarrow> nat \<Rightarrow> state" where
  "main env keys wait_hours n =
     (if keys = [] then initial_state
      else main_loop env keys wait_hours n (main_setup env keys initial_state))"

section \<open>Notions used to state the properties\<close>

text \<open>The events of the authentication handshake.\<close>

fun is_auth_event :: "event \<Rightarrow> bool" where
  "is_auth_event (GetNonce a) = True"
| "is_auth_event (Sign k n) = True"
| "is_auth_event (Login a g n) = True"
| "is_auth_event (SetInviter t) = True"
| "is_auth_event e = False"

text \<open>The calls that create something: on the platform or on-chain.\<close>

fun is_creation_event :: "event \<Rightarrow> bool" where
  "is_creation_event (CreateNewAgent t n d) = True"
| "is_creation_event (CreateNewRequest t n d) = True"
| "is_creation_event (ContractCall m args) = True"
| "is_creation_event e = False"

text \<open>A postcondition that relates the state before a function to the state after it,
  however the function ends.\<close>

definition rel_post :: "(state \<Rightarrow> state \<Rightarrow> bool) \<Rightarrow> 'a eff \<Rightarrow> bool" where
  "rel_post R m = (\<forall>s. R s (snd (m s)))"

definition preorder_on_states :: "(state \<Rightarrow> state \<Rightarrow> bool) \<Rightarrow> bool" where
  "preorder_on_states R = ((\<forall>s. R s s) \<and> (\<forall>a b c. R a b \<longrightarrow> R b c \<longrightarrow> R a c))"

text \<open>A function that throws only when the account has no statistics entry.\<close>

definition safe :: "nat \<Rightarrow> 'a eff \<Rightarrow> bool" where
  "safe accountIndex m = (\<forall>s e s'. m s = (Inl e, s') \<longrightarrow> accountsStats s' accountIndex = None)"

text \<open>Only the trace has changed, by events of \<open>E\<close>.\<close>

definition frame :: "event set \<Rightarrow> state \<Rightarrow> state \<Rightarrow> bool" where
  "frame E s s' =
     (accountsStats s' = accountsStats s \<and> tokenDataArray s' = tokenDataArray s \<and>
      cycleCount s' = cycleCount s \<and> (\<exists>evs. trace s' = trace s @ evs \<and> set evs \<subseteq> E))"

text \<open>How the counters of one account may move between two states: none decreases, and
  \<open>txs\<close> has grown by as much as \<open>agents\<close> and \<open>requests\<close> together.\<close>

definition counts_step :: "stats \<Rightarrow> stats \<Rightarrow> bool" where
  "counts_step st st' =
     (errors st \<le> errors st' \<and> agents st \<le> agents st' \<and> requests st \<le> requests st' \<and>
      txs st' - txs st = (agents st' - agents st) + (requests st' - requests st) \<and>
      startTime st' = startTime st)"

text \<open>The entry of an account is kept, and its counters move as \<open>counts_step\<close> allows.\<close>

definition entry_step :: "stats option \<Rightarrow> stats option \<Rightarrow> bool" where
  "entry_step a b =
     (case a of None \<Rightarrow> b = None | Some st \<Rightarrow> (\<exists>st'. b = Some st' \<and> counts_step st st'))"

text \<open>The work on account \<open>accountIndex\<close>: events of \<open>E\<close>, no other account touched.\<close>

definition step_rel :: "event set \<Rightarrow> nat \<Rightarrow> state \<Rightarrow> state \<Rightarrow> bool" where
  "step_rel E accountIndex s s' =
     ((\<exists>evs. trace s' = trace s @ evs \<and> set evs \<subseteq> E) \<and>
      tokenDataArray s' = tokenDataArray s \<and> cycleCount s' = cycleCount s \<and>
      (\<forall>j. j \<noteq> accountIndex \<longrightarrow> accountsStats s' j = accountsStats s j) \<and>
      entry_step (accountsStats s accountIndex) (accountsStats s' accountIndex))"

definition accounts_rel :: "state \<Rightarrow> state \<Rightarrow> bool" where
  "accounts_rel s s' =
     (prefix (trace s) (trace s') \<and> (\<forall>j. entry_step (accountsStats s j) (accountsStats s' j)))"

text \<open>The two predicates on the counters of one account.\<close>

definition counters_bounded :: "stats \<Rightarrow> bool" where
  "counters_bounded st = (errors st \<ge> 0 \<and> txs st \<le> agents st + requests st)"

definition counters_exact :: "stats \<Rightarrow> bool" where
  "counters_exact st = (txs st = agents st + requests st)"

text \<open>A daily-task response fails the two validations of \<^verbatim>\<open>executeDailyTasks\<close>.\<close>

fun lacks_flags :: "task_data response \<Rightarrow> bool" where
  "lacks_flags Falsy_response = True"
| "lacks_flags Falsy_data = True"
| "lacks_flags (Data d) = (is_create_agent d = JUndefined \<or> is_create_request d = JUndefined)"

text \<open>During the step from \<open>s\<close> to \<open>s'\<close> a call \<open>ev\<close> was made and answered by \<open>v\<close>.\<close>

definition answered :: "(event list \<Rightarrow> error + 'a) \<Rightarrow> event \<Rightarrow> 'a \<Rightarrow> state \<Rightarrow> state \<Rightarrow> bool" where
  "answered reply ev v s s' =
     (\<exists>pre post. trace s' = trace s @ pre @ [ev] @ post \<and> reply (trace s @ pre @ [ev]) = Inr v)"

text \<open>A function keeps a predicate on the counters of every account that has an entry.\<close>

definition keeps :: "(stats \<Rightarrow> bool) \<Rightarrow> 'a eff \<Rightarrow> bool" where
  "keeps P m =
     (\<forall>s i st. accountsStats s i = Some st \<and> P st \<longrightarrow>
        (\<exists>st'. accountsStats (snd (m s)) i = Some st' \<and> P st'))"

subsection \<open>Registrations\<close>

text \<open>
  What a counted transaction stands for, read off the history. \<open>hash_ok\<close> is
  \<^verbatim>\<open>txResult && txResult.hash\<close> on the answer of the chain. \<open>before_attempts ev tr\<close> is
  the history \<open>tr\<close> without the attempts of the call \<open>ev\<close> and the waits between them at
  its end. A history is an agent registration when it ends with a call of
  \<^verbatim>\<open>addNewAgent\<close> that the chain answered with a truthy hash, for a truthy identifier
  that the platform had returned, right before the attempts of that call, to the creation
  of the agent of that name and description; likewise for requests.
\<close>

definition hash_ok :: "error + jsval option \<Rightarrow> bool" where
  "hash_ok r = (case r of Inr (Some h) \<Rightarrow> truthy h | _ \<Rightarrow> False)"

fun is_sleep :: "event \<Rightarrow> bool" where
  "is_sleep (Sleep ms) = True"
| "is_sleep e = False"

definition before_attempts :: "event \<Rightarrow> event list \<Rightarrow> event list" where
  "before_attempts ev tr = rev (dropWhile (\<lambda>e. e = ev \<or> is_sleep e) (rev tr))"

definition agent_answered :: "env \<Rightarrow> jsval \<Rightarrow> jsval \<Rightarrow> jsval \<Rightarrow> event list \<Rightarrow> bool" where
  "agent_answered env agentID name desc h =
     (h \<noteq> [] \<and>
      (case last h of
         CreateNewAgent tok n d \<Rightarrow>
           n = name \<and> d = desc \<and> createNewAgent_reply env h = Inr (Data agentID)
       | _ \<Rightarrow> False))"

definition request_answered :: "env \<Rightarrow> jsval \<Rightarrow> jsval \<Rightarrow> event list \<Rightarrow> bool" where
  "request_answered env requestID ttl h =
     (h \<noteq> [] \<and>
      (case last h of
         CreateNewRequest tok t d \<Rightarrow>
           t = ttl \<and> createNewRequest_reply env h = Inr (Data requestID)
       | _ \<Rightarrow> False))"

definition agent_registered :: "env \<Rightarrow> event list \<Rightarrow> bool" where
  "agent_registered env tr =
     (tr \<noteq> [] \<and>
      (case last tr of
         ContractCall m args \<Rightarrow>
           m = ''addNewAgent'' \<and> hash_ok (contractCall_reply env tr) \<and>
           (case args of
              [agentID, name, desc] \<Rightarrow>
                truthy agentID \<and>
                agent_answered env agentID name desc (before_attempts (last tr) tr)
            | _ \<Rightarrow> False)
       | _ \<Rightarrow> False))"

definition request_registered :: "env \<Rightarrow> event list \<Rightarrow> bool" where
  "request_registered env tr =
     (tr \<noteq> [] \<and>
      (case last tr of
         ContractCall m args \<Rightarrow>
           m = ''addNewRequest'' \<and> hash_ok (contractCall_reply env tr) \<and>
           (case args of
              [requestID, ttl] \<Rightarrow>
                truthy requestID \<and>
                request_answered env requestID ttl (before_attempts (last tr) tr)
            | _ \<Rightarrow> False)
       | _ \<Rightarrow> False))"

text \<open>The number of initial segments of a history that satisfy \<open>Q\<close>.\<close>

definition history_count :: "(event list \<Rightarrow> bool) \<Rightarrow> event list \<Rightarrow> int" where
  "history_count Q tr = int (length (filter Q (prefixes tr)))"


definition agents_registered :: "env \<Rightarrow> event list \<Rightarrow> int" where
  "agents_registered env tr = history_count (agent_registered env) tr"

definition requests_registered :: "env \<Rightarrow> event list \<Rightarrow> int" where
  "requests_registered env tr = history_count (request_registered env) tr"

text \<open>Between \<open>s\<close> and \<open>s'\<close> an agent or a request was registered.\<close>

definition new_registration :: "env \<Rightarrow> state \<Rightarrow> state \<Rightarrow> bool" where
  "new_registration env s s' =
     (\<exists>p \<in> set (prefixes (trace s')).
        strict_prefix (trace s) p \<and> (agent_registered env p \<or> request_registered env p))"

text \<open>A function counts, for the account \<open>accountIndex\<close>, what it registers: \<open>agents\<close>
  and \<open>requests\<close> grow by the number of registrations of their kind that the function
  adds to the history, and \<open>txs\<close> by their sum.\<close>

definition counts_match :: "env \<Rightarrow> nat \<Rightarrow> 'a eff \<Rightarrow> bool" where
  "counts_match env accountIndex m =
     (\<forall>s st st'.
        accountsStats s accountIndex = Some st \<and>
        accountsStats (snd (m s)) accountIndex = Some st' \<longrightarrow>
        agents st' - agents st =
          agents_registered env (trace (snd (m s))) - agents_registered env (trace s) \<and>
        requests st' - requests st =
          requests_registered env (trace (snd (m s))) - requests_registered env (trace s) \<and>
        txs st' - txs st =
          (agents_registered env (trace (snd (m s))) - agents_registered env (trace s)) +
          (requests_registered env (trace (snd (m s))) - requests_registered env (trace s)))"

text \<open>A function moves \<open>txs\<close>, of whatever account, only when it registers something.\<close>

definition txs_registered :: "env \<Rightarrow> 'a eff \<Rightarrow> bool" where
  "txs_registered env m =
     (\<forall>s j st st'.
        accountsStats s j = Some st \<and> accountsStats (snd (m s)) j = Some st' \<and>
        txs st' \<noteq> txs st \<longrightarrow>
        new_registration env s (snd (m s)))"

text \<open>The sum of a counter over the accounts \<open>0, ..., n - 1\<close>.\<close>

definition total :: "(stats \<Rightarrow> int) \<Rightarrow> nat \<Rightarrow> state \<Rightarrow> int" where
  "total f n s = (\<Sum>i<n. case accountsStats s i of None \<Rightarrow> 0 | Some st \<Rightarrow> f st)"

text \<open>The relations between two states that the proofs carry through the program: for
  the work on one account, and for the work on the accounts \<open>0, ..., n - 1\<close>.\<close>

definition count_rel :: "env \<Rightarrow> nat \<Rightarrow> state \<Rightarrow> state \<Rightarrow> bool" where
  "count_rel env accountIndex s s' =
     (step_rel UNIV accountIndex s s' \<and>
      (\<forall>st st'.
         accountsStats s accountIndex = Some st \<and> accountsStats s' accountIndex = Some st' \<longrightarrow>
         agents st' - agents st =
           agents_registered env (trace s') - agents_registered env (trace s) \<and>
         requests st' - requests st =
           requests_registered env (trace s') - requests_registered env (trace s)))"

definition loop_rel :: "env \<Rightarrow> nat \<Rightarrow> state \<Rightarrow> state \<Rightarrow> bool" where
  "loop_rel env n s s' =
     (accounts_rel s s' \<and>
      (\<forall>j st st'.
         accountsStats s j = Some st \<and> accountsStats s' j = Some st' \<and> txs st' \<noteq> txs st \<longrightarrow>
         new_registration env s s') \<and>
      ((\<forall>i<n. accountsStats s i \<noteq> None) \<longrightarrow>
         total agents n s' - total agents n s =
           agents_registered env (trace s') - agents_registered env (trace s) \<and>
         total requests n s' - total requests n s =
           requests_registered env (trace s') - requests_registered env (trace s)))"

section \<open>Concrete inputs\<close>

text \<open>A collaborator that fails its first two calls, and one that fails every call with a
  different error.\<close>

definition flaky_reply :: "event list \<Rightarrow> error + jsval response" where
  "flaky_reply tr =
     (if length tr = 1 then Inl (Thrown ''first'')
      else if length tr = 3 then Inl (Thrown ''second'')
      else Inr (Data (JNum 7)))"

definition failing_reply :: "event list \<Rightarrow> error + jsval response" where
  "failing_reply tr =
     (if length tr = 1 then Inl (Thrown ''first'')
      else if length tr = 3 then Inl (Thrown ''second'')
      else Inl (Thrown ''third''))"

text \<open>An environment in which every collaborator succeeds; the clock stands at 4600 s.\<close>

definition base_env :: env where
  "base_env =
     \<lparr>wallet_address = (\<lambda>k. Inr ''0xabc''),
      JSON_parse = (\<lambda>t. Inr (Some \<lparr>name_agent = JStr ''name'', title = JStr ''title'',
                                     description = JStr ''text''\<rparr>)),
      date_now = (\<lambda>tr. 4600000),
      getNonce_reply = (\<lambda>tr. Inr (Data (JStr ''nonce''))),
      sign_reply = (\<lambda>tr. Inr (Some (JStr ''signature''))),
      login_reply = (\<lambda>tr. Inr (Data \<lparr>token = JStr ''token'', token_expire_time = Some 9000\<rparr>)),
      setInviter_reply = (\<lambda>tr. Inr ()),
      verifyDailyTask_reply = (\<lambda>tr. Inr (Data \<lparr>is_create_agent = JBool False,
                                 is_create_request = JBool False, finish_time = Some 1000\<rparr>)),
      generateAIResponse_reply = (\<lambda>tr. Inr ''{}''),
      createNewAgent_reply = (\<lambda>tr. Inr (Data (JNum 11))),
      createNewRequest_reply = (\<lambda>tr. Inr (Data (JNum 12))),
      contractCall_reply = (\<lambda>tr. Inr (Some (JStr ''0xhash''))),
      getUserData_reply = (\<lambda>tr. Inr (Data \<lparr>data_uid = JStr ''uid'', total_point = JNum 795,
                                                data_days = JNum 3\<rparr>))\<rparr>"

text \<open>The status response has no completion flags.\<close>

definition no_flags_env :: env where
  "no_flags_env =
     base_env\<lparr>verifyDailyTask_reply := (\<lambda>tr. Inr (Data \<lparr>is_create_agent = JUndefined,
                  is_create_request = JUndefined, finish_time = None\<rparr>))\<rparr>"

definition session :: tokenData where
  "session = \<lparr>td_token = JStr ''token'', td_token_expire_time = Some 9000, td_address = ''0xabc''\<rparr>"

definition one_account :: state where
  "one_account = \<lparr>trace = [], accountsStats = [0 \<mapsto> new_stats 0], tokenDataArray = [None],
                   cycleCount = 0\<rparr>"

text \<open>Both daily tasks are already done.\<close>

definition all_done_env :: env where
  "all_done_env =
     base_env\<lparr>verifyDailyTask_reply := (\<lambda>tr. Inr (Data \<lparr>is_create_agent = JBool True,
                  is_create_request = JBool True, finish_time = Some 1000\<rparr>))\<rparr>"

text \<open>The generated content parses, with an empty agent name.\<close>

definition empty_name_env :: env where
  "empty_name_env =
     base_env\<lparr>JSON_parse := (\<lambda>t. Inr (Some \<lparr>name_agent = JStr [], title = JStr ''title'',
                                               description = JStr ''text''\<rparr>))\<rparr>"

text \<open>A completion time of \<open>2 ^ 53\<close> seconds, both tasks done, the clock at 4601 s.\<close>

definition huge_finish_env :: env where
  "huge_finish_env =
     base_env\<lparr>date_now := (\<lambda>tr. 4601000),
       verifyDailyTask_reply := (\<lambda>tr. Inr (Data \<lparr>is_create_agent = JBool True,
          is_create_request = JBool True, finish_time = Some 9007199254740992\<rparr>))\<rparr>"

text \<open>The generated content is not JSON.\<close>

definition unparsable_env :: env where
  "unparsable_env = base_env\<lparr>JSON_parse := (\<lambda>t. Inl (Thrown ''SyntaxError''))\<rparr>"

text \<open>The clock has reached the expiry time of the carried session.\<close>

definition late_env :: env where
  "late_env = base_env\<lparr>date_now := (\<lambda>tr. 9000000)\<rparr>"

text \<open>Three ways for the handshake to fail: no nonce, no token, a signer that throws.\<close>

definition no_nonce_env :: env where
  "no_nonce_env = base_env\<lparr>getNonce_reply := (\<lambda>tr. Inr Falsy_data)\<rparr>"

definition no_token_env :: env where
  "no_token_env =
     base_env\<lparr>login_reply := (\<lambda>tr. Inr (Data \<lparr>token = JUndefined, token_expire_time = None\<rparr>))\<rparr>"

definition bad_key_env :: env where
  "bad_key_env = base_env\<lparr>sign_reply := (\<lambda>tr. Inl (Thrown ''invalid private key''))\<rparr>"

section \<open>Numbers in the safe range\<close>

lemma round_double_safe: "\<bar>x\<bar> \<le> 2 ^ 53 \<Longrightarrow> round_double x = x"
proof (cases "\<bar>x\<bar> < 2 ^ 53")
  case True
  then have "double_exponent \<bar>x\<bar> 0 = 0" by (subst double_exponent.simps) simp
  then show ?thesis by (simp add: round_double_def Let_def mult_sgn_abs)
next
  case False
  assume "\<bar>x\<bar> \<le> 2 ^ 53"
  with False have a: "\<bar>x\<bar> = 2 ^ 53" by simp
  have "double_exponent (2 ^ 53) 0 = 1"
    by (subst double_exponent.simps, simp, subst double_exponent.simps, simp)
  with a have "round_double x = sgn x * 2 ^ 53"
    by (simp add: round_double_def Let_def)
  with a show ?thesis by (metis mult_sgn_abs)
qed

lemma js_add_safe: "\<bar>x + y\<bar> \<le> 2 ^ 53 \<Longrightarrow> js_add x y = x + y"
  by (simp add: js_add_def round_double_safe)

lemma js_sub_safe: "\<bar>x - y\<bar> \<le> 2 ^ 53 \<Longrightarrow> js_sub x y = x - y"
  by (simp add: js_sub_def round_double_safe)

section \<open>Relational postconditions\<close>

lemma rel_postD: "rel_post R m \<Longrightarrow> m s = (r, s') \<Longrightarrow> R s s'"
  by (auto simp: rel_post_def dest: spec [of _ s])

lemma rp_ret: "preorder_on_states R \<Longrightarrow> rel_post R (ret x)"
  by (simp add: rel_post_def ret_def preorder_on_states_def)

lemma rp_throw: "preorder_on_states R \<Longrightarrow> rel_post R (throw e)"
  by (simp add: rel_post_def throw_def preorder_on_states_def)

lemma rp_lift: "preorder_on_states R \<Longrightarrow> rel_post R (lift_result r)"
  by (simp add: rel_post_def lift_result_def preorder_on_states_def)

lemma rp_Date_now: "preorder_on_states R \<Longrightarrow> rel_post R (Date_now env)"
  by (simp add: rel_post_def Date_now_def preorder_on_states_def)

lemma rp_now_seconds: "preorder_on_states R \<Longrightarrow> rel_post R (now_seconds env)"
  by (simp add: rel_post_def now_seconds_def preorder_on_states_def)

lemma rp_bind:
  assumes "preorder_on_states R" "rel_post R m" "\<And>x. rel_post R (f x)"
  shows "rel_post R (bind_eff m f)"
  unfolding rel_post_def
proof
  fix s
  obtain r s1 where m: "m s = (r, s1)" by (cases "m s")
  have 1: "R s s1" using assms(2) m by (rule rel_postD)
  show "R s (snd (bind_eff m f s))"
  proof (cases r)
    case (Inl e)
    then show ?thesis using m 1 by (simp add: bind_eff_def)
  next
    case (Inr x)
    obtain r2 s2 where f: "f x s1 = (r2, s2)" by (cases "f x s1")
    have "R s1 s2" using assms(3) f by (rule rel_postD)
    with 1 assms(1) have "R s s2" unfolding preorder_on_states_def by blast
    then show ?thesis using m Inr f by (simp add: bind_eff_def)
  qed
qed

lemma rp_catch:
  assumes "preorder_on_states R" "rel_post R m" "\<And>e. rel_post R (h e)"
  shows "rel_post R (catch_eff m h)"
  unfolding rel_post_def
proof
  fix s
  obtain r s1 where m: "m s = (r, s1)" by (cases "m s")
  have 1: "R s s1" using assms(2) m by (rule rel_postD)
  show "R s (snd (catch_eff m h s))"
  proof (cases r)
    case (Inr x)
    then show ?thesis using m 1 by (simp add: catch_eff_def)
  next
    case (Inl e)
    obtain r2 s2 where f: "h e s1 = (r2, s2)" by (cases "h e s1")
    have "R s1 s2" using assms(3) f by (rule rel_postD)
    with 1 assms(1) have "R s s2" unfolding preorder_on_states_def by blast
    then show ?thesis using m Inl f by (simp add: catch_eff_def)
  qed
qed

lemma rp_if: "rel_post R a \<Longrightarrow> rel_post R b \<Longrightarrow> rel_post R (if c then a else b)"
  by simp

lemma rp_case_option:
  "rel_post R a \<Longrightarrow> (\<And>x. rel_post R (b x)) \<Longrightarrow> rel_post R (case v of None \<Rightarrow> a | Some x \<Rightarrow> b x)"
  by (cases v) simp_all

lemma rp_case_response:
  "rel_post R a \<Longrightarrow> rel_post R b \<Longrightarrow> (\<And>x. rel_post R (c x)) \<Longrightarrow>
   rel_post R (case v of Falsy_response \<Rightarrow> a | Falsy_data \<Rightarrow> b | Data x \<Rightarrow> c x)"
  by (cases v) simp_all

lemma rp_let: "rel_post R (f v) \<Longrightarrow> rel_post R (Let v f)"
  by simp

lemma rp_retry_loop:
  assumes "preorder_on_states R" "rel_post R fn" "\<And>ms. rel_post R (sleep ms)"
  shows "R s (snd (retry_loop fn retries delay i s))"
  using assms(2)
proof (induction fn retries delay i s rule: retry_loop.induct)
  case (1 fn retries delay i s)
  show ?case
  proof (cases "i < retries")
    case False
    then show ?thesis using assms(1) by (subst retry_loop.simps) (simp add: preorder_on_states_def)
  next
    case True
    obtain r s1 where m: "fn s = (r, s1)" by (cases "fn s")
    have 1: "R s s1" using "1.prems" m by (rule rel_postD)
    show ?thesis
    proof (cases r)
      case (Inr v)
      then show ?thesis using True m 1 by (subst retry_loop.simps) simp
    next
      case (Inl e)
      show ?thesis
      proof (cases "i = retries - 1")
        case True
        then show ?thesis using \<open>i < retries\<close> m 1 Inl by (subst retry_loop.simps) simp
      next
        case False
        let ?s2 = "snd (sleep (delay * 2 ^ i) s1)"
        have 2: "R s1 ?s2" using assms(3) by (simp add: rel_post_def)
        have 3: "R ?s2 (snd (retry_loop fn retries delay (i + 1) ?s2))"
          using "1.IH" [OF \<open>i < retries\<close> m [symmetric] _ False "1.prems"] Inl by simp
        from 1 2 3 assms(1) have "R s (snd (retry_loop fn retries delay (i + 1) ?s2))"
          unfolding preorder_on_states_def by blast
        then show ?thesis using \<open>i < retries\<close> m Inl False by (subst retry_loop.simps) simp
      qed
    qed
  qed
qed

lemma rp_retry:
  "preorder_on_states R \<Longrightarrow> rel_post R fn \<Longrightarrow> (\<And>ms. rel_post R (sleep ms)) \<Longrightarrow>
   rel_post R (retryWithBackoff fn retries delay)"
  unfolding rel_post_def retryWithBackoff_def
  using rp_retry_loop [unfolded rel_post_def] by blast

subsection \<open>The frame and the step of one account\<close>

lemma frame_preorder: "preorder_on_states (frame E)"
  unfolding preorder_on_states_def
proof (intro conjI allI impI)
  fix s show "frame E s s" by (simp add: frame_def)
next
  fix a b c assume ab: "frame E a b" and bc: "frame E b c"
  from ab obtain e1 where e1: "trace b = trace a @ e1" "set e1 \<subseteq> E" by (auto simp: frame_def)
  from bc obtain e2 where e2: "trace c = trace b @ e2" "set e2 \<subseteq> E" by (auto simp: frame_def)
  have "trace c = trace a @ (e1 @ e2) \<and> set (e1 @ e2) \<subseteq> E" using e1 e2 by simp
  then have t: "\<exists>evs. trace c = trace a @ evs \<and> set evs \<subseteq> E" by blast
  with ab bc show "frame E a c" by (simp add: frame_def)
qed

lemma counts_step_refl: "counts_step st st"
  by (simp add: counts_step_def)

lemma counts_step_trans: "counts_step a b \<Longrightarrow> counts_step b c \<Longrightarrow> counts_step a c"
  by (auto simp: counts_step_def)

lemma entry_step_refl: "entry_step a a"
  by (simp add: entry_step_def counts_step_refl split: option.splits)

lemma entry_step_trans: "entry_step a b \<Longrightarrow> entry_step b c \<Longrightarrow> entry_step a c"
  by (auto simp: entry_step_def split: option.splits intro: counts_step_trans)

lemma step_rel_preorder: "preorder_on_states (step_rel E i)"
  unfolding preorder_on_states_def
proof (intro conjI allI impI)
  fix s show "step_rel E i s s" by (simp add: step_rel_def entry_step_refl)
next
  fix a b c assume ab: "step_rel E i a b" and bc: "step_rel E i b c"
  from ab obtain e1 where e1: "trace b = trace a @ e1" "set e1 \<subseteq> E" by (auto simp: step_rel_def)
  from bc obtain e2 where e2: "trace c = trace b @ e2" "set e2 \<subseteq> E" by (auto simp: step_rel_def)
  have "trace c = trace a @ (e1 @ e2) \<and> set (e1 @ e2) \<subseteq> E" using e1 e2 by simp
  then have t: "\<exists>evs. trace c = trace a @ evs \<and> set evs \<subseteq> E" by blast
  have "entry_step (accountsStats a i) (accountsStats c i)"
    using ab bc by (auto simp: step_rel_def intro: entry_step_trans)
  with t ab bc show "step_rel E i a c" by (simp add: step_rel_def)
qed

lemma accounts_rel_preorder: "preorder_on_states accounts_rel"
  unfolding preorder_on_states_def accounts_rel_def
  by (auto intro: entry_step_trans entry_step_refl)

lemma frame_imp_step: "frame E s s' \<Longrightarrow> step_rel E i s s'"
  by (auto simp: frame_def step_rel_def entry_step_refl)

lemma step_imp_accounts: "step_rel E i s s' \<Longrightarrow> accounts_rel s s'"
  unfolding step_rel_def accounts_rel_def
  by (auto simp: entry_step_refl prefix_def)

lemma rp_weaken: "rel_post R m \<Longrightarrow> (\<And>s s'. R s s' \<Longrightarrow> R' s s') \<Longrightarrow> rel_post R' m"
  by (simp add: rel_post_def)

lemma rp_call_frame: "ev \<in> E \<Longrightarrow> rel_post (frame E) (call ev reply)"
  by (simp add: rel_post_def call_def frame_def)

lemma rp_sleep_frame: "Sleep ms \<in> E \<Longrightarrow> rel_post (frame E) (sleep ms)"
  by (simp add: rel_post_def sleep_def frame_def)

lemma rp_call_step: "ev \<in> E \<Longrightarrow> rel_post (step_rel E i) (call ev reply)"
  by (rule rp_weaken [OF rp_call_frame]) (auto intro: frame_imp_step)

lemma rp_sleep_step: "Sleep ms \<in> E \<Longrightarrow> rel_post (step_rel E i) (sleep ms)"
  by (rule rp_weaken [OF rp_sleep_frame]) (auto intro: frame_imp_step)

lemma rp_update_step:
  "(\<And>st. counts_step st (f st)) \<Longrightarrow> rel_post (step_rel E i) (update_stats i f)"
  by (auto simp: rel_post_def update_stats_def step_rel_def entry_step_def split: option.splits)

subsection \<open>The functions of the program\<close>

lemmas rp_structure =
  rp_bind rp_catch rp_if rp_ret rp_throw rp_lift rp_case_option rp_case_response rp_let
  rp_Date_now rp_now_seconds rp_retry

lemma update_fuse:
  "bind_eff (update_stats i f) (\<lambda>_. bind_eff (update_stats i g) k) =
   bind_eff (update_stats i (\<lambda>st. g (f st))) k"
  by (rule ext) (simp add: bind_eff_def update_stats_def split: option.splits)

lemma getToken_frame: "rel_post (frame (Collect is_auth_event)) (getToken env key idx)"
  unfolding getToken_def getNonce_def sign_with_private_key_def login_def setInviter_def
  by (intro rp_structure rp_call_frame frame_preorder) simp_all

lemma checkTokenValid_frame: "rel_post (frame E) (checkTokenValid env t)"
  unfolding checkTokenValid_def
  by (intro rp_structure frame_preorder)

lemma createAgent_step: "rel_post (step_rel {e. \<not> is_auth_event e} idx) (createAgent env tok idx)"
  unfolding createAgent_def update_fuse generateAIResponse_def createNewAgent_def contractCall_def
  by (intro rp_structure rp_call_step rp_sleep_step rp_update_step step_rel_preorder)
     (simp_all add: counts_step_def inc_agents_def inc_txs_def inc_errors_def)

lemma createRequest_step: "rel_post (step_rel {e. \<not> is_auth_event e} idx) (createRequest env tok idx)"
  unfolding createRequest_def update_fuse generateAIResponse_def createNewRequest_def contractCall_def
  by (intro rp_structure rp_call_step rp_sleep_step rp_update_step step_rel_preorder)
     (simp_all add: counts_step_def inc_requests_def inc_txs_def inc_errors_def)

lemma run_tasks_step: "rel_post (step_rel {e. \<not> is_auth_event e} idx) (run_tasks env tok idx d)"
  unfolding run_tasks_def
  by (intro rp_structure rp_update_step step_rel_preorder createAgent_step createRequest_step)
     (simp_all add: counts_step_def)

lemma executeDailyTasks_step:
  "rel_post (step_rel {e. \<not> is_auth_event e} idx) (executeDailyTasks env td idx)"
  unfolding executeDailyTasks_def verifyDailyTask_def
  by (intro rp_structure rp_call_step rp_sleep_step rp_update_step step_rel_preorder run_tasks_step)
     (simp_all add: counts_step_def inc_errors_def)

lemma refresh_user_data_step:
  "rel_post (step_rel {e. \<not> is_auth_event e} idx) (refresh_user_data env td idx)"
  unfolding refresh_user_data_def getUserData_def
  by (intro rp_structure rp_call_step rp_update_step step_rel_preorder)
     (simp_all add: counts_step_def)

lemma account_failed_step: "rel_post (step_rel E idx) (account_failed idx cur)"
  unfolding account_failed_def
  by (intro rp_structure rp_update_step step_rel_preorder)
     (simp_all add: counts_step_def inc_errors_def)

lemma after_auth_step:
  "rel_post (step_rel {e. \<not> is_auth_event e} idx) (after_auth env td idx)"
  unfolding after_auth_def
  by (intro rp_structure step_rel_preorder executeDailyTasks_step refresh_user_data_step)

section \<open>The retry primitive\<close>

text \<open>
  C1. With three attempts and a base delay of 5000, \<^verbatim>\<open>retryWithBackoff\<close> runs the operation
  at most three times: a success returns the result of that attempt at once; after the
  first failure it waits 5000, after the second 10000; and when the third attempt fails,
  its error is what the caller gets, as it was thrown.
\<close>

theorem retryWithBackoff_three_attempts:
  "retryWithBackoff fn 3 5000 s =
     (case fn s of
        (Inr v, s1) \<Rightarrow> (Inr (Some v), s1)
      | (Inl e1, s1) \<Rightarrow>
          (case fn (snd (sleep 5000 s1)) of
             (Inr v, s2) \<Rightarrow> (Inr (Some v), s2)
           | (Inl e2, s2) \<Rightarrow>
               (case fn (snd (sleep 10000 s2)) of
                  (Inr v, s3) \<Rightarrow> (Inr (Some v), s3)
                | (Inl e3, s3) \<Rightarrow> (Inl e3, s3))))"
  unfolding retryWithBackoff_def
  apply (subst retry_loop.simps)
  apply (subst retry_loop.simps)
  apply (subst retry_loop.simps)
  apply (simp split: prod.splits sum.splits)
  done

theorem retryWithBackoff_three_attempts_witness:
  "retryWithBackoff (call (GetUserData JNull) flaky_reply) 3 5000 initial_state =
     (Inr (Some (Data (JNum 7))),
      initial_state\<lparr>trace := [GetUserData JNull, Sleep 5000, GetUserData JNull, Sleep 10000,
                               GetUserData JNull]\<rparr>) \<and>
   retryWithBackoff (call (GetUserData JNull) failing_reply) 3 5000 initial_state =
     (Inl (Thrown ''third''),
      initial_state\<lparr>trace := [GetUserData JNull, Sleep 5000, GetUserData JNull, Sleep 10000,
                               GetUserData JNull]\<rparr>)"
  using retryWithBackoff_three_attempts [of "call (GetUserData JNull) flaky_reply" initial_state]
    retryWithBackoff_three_attempts [of "call (GetUserData JNull) failing_reply" initial_state]
  by (simp add: call_def sleep_def flaky_reply_def failing_reply_def initial_state_def)

section \<open>The daily tasks\<close>

lemma retry_loop_three:
  "retry_loop fn 3 d 0 s =
     (case fn s of
        (Inr v, s1) \<Rightarrow> (Inr (Some v), s1)
      | (Inl e1, s1) \<Rightarrow>
          (case fn (snd (sleep d s1)) of
             (Inr v, s2) \<Rightarrow> (Inr (Some v), s2)
           | (Inl e2, s2) \<Rightarrow>
               (case fn (snd (sleep (d * 2) s2)) of
                  (Inr v, s3) \<Rightarrow> (Inr (Some v), s3)
                | (Inl e3, s3) \<Rightarrow> (Inl e3, s3))))"
  apply (subst retry_loop.simps)
  apply (subst retry_loop.simps)
  apply (subst retry_loop.simps)
  apply (simp split: prod.splits sum.splits)
  done

lemma retry_default:
  "retryWithBackoff fn MAX_RETRIES RETRY_DELAY s =
     (case fn s of
        (Inr v, s1) \<Rightarrow> (Inr (Some v), s1)
      | (Inl e1, s1) \<Rightarrow>
          (case fn (snd (sleep 5000 s1)) of
             (Inr v, s2) \<Rightarrow> (Inr (Some v), s2)
           | (Inl e2, s2) \<Rightarrow>
               (case fn (snd (sleep 10000 s2)) of
                  (Inr v, s3) \<Rightarrow> (Inr (Some v), s3)
                | (Inl e3, s3) \<Rightarrow> (Inl e3, s3))))"
  by (simp add: retryWithBackoff_def MAX_RETRIES_def RETRY_DELAY_def retry_loop_three
      split: prod.splits sum.splits)

lemma retry_call_frame:
  "rel_post (frame (insert ev (range Sleep))) (retryWithBackoff (call ev reply) n d)"
  by (intro rp_retry rp_call_frame rp_sleep_frame frame_preorder) simp_all

lemma status_fetch_frame:
  assumes "retryWithBackoff (verifyDailyTask env tok addr) n d s = (r, s1)"
  shows "frame (insert (VerifyDailyTask tok addr) (range Sleep)) s s1"
  using retry_call_frame assms unfolding verifyDailyTask_def by (rule rel_postD)

lemma status_fetch_events:
  assumes "retryWithBackoff (verifyDailyTask env tok addr) n d s = (r, s1)"
  shows "\<exists>evs. accountsStats s1 = accountsStats s \<and> trace s1 = trace s @ evs \<and>
           (\<forall>e \<in> set evs. (e = VerifyDailyTask tok addr \<or> e \<in> range Sleep) \<and>
                            \<not> is_creation_event e)"
proof -
  from status_fetch_frame [OF assms] obtain evs where
    e: "accountsStats s1 = accountsStats s" "trace s1 = trace s @ evs"
      "set evs \<subseteq> insert (VerifyDailyTask tok addr) (range Sleep)"
    by (auto simp: frame_def)
  have "(e = VerifyDailyTask tok addr \<or> e \<in> range Sleep) \<and> \<not> is_creation_event e"
    if "e \<in> set evs" for e
    using that e(3) by auto
  with e(1,2) show ?thesis by blast
qed

lemma executeDailyTasks_invalid:
  assumes "retryWithBackoff (verifyDailyTask env (td_token td) (td_address td))
             MAX_RETRIES RETRY_DELAY s = (Inr (Some resp), s1)"
    and "lacks_flags resp"
  shows "executeDailyTasks env td idx s = (Inr False, s1)"
  using assms
  by (cases resp)
     (auto simp: executeDailyTasks_def catch_eff_def bind_eff_def ret_def)

lemma executeDailyTasks_valid:
  assumes "retryWithBackoff (verifyDailyTask env (td_token td) (td_address td))
             MAX_RETRIES RETRY_DELAY s = (Inr (Some (Data d)), s1)"
    and "is_create_agent d \<noteq> JUndefined" "is_create_request d \<noteq> JUndefined"
  shows "executeDailyTasks env td idx s =
           catch_eff (run_tasks env (td_token td) idx d)
             (\<lambda>error. bind_eff (update_stats idx inc_errors) (\<lambda>_. ret False)) s1"
  using assms
  by (simp add: executeDailyTasks_def catch_eff_def bind_eff_def)

text \<open>
  C3 (as amended). When the status response lacks a completion flag or its data,
  \<^verbatim>\<open>executeDailyTasks\<close> leaves the \<open>errors\<close> counter of the account as it was, and the
  only calls it has made are those of the status query and the waits of its retries: no
  agent creation, no request creation, no on-chain call.
\<close>

theorem missing_flags_errors_unchanged:
  assumes "retryWithBackoff (verifyDailyTask env (td_token td) (td_address td))
             MAX_RETRIES RETRY_DELAY s = (Inr (Some resp), s1)"
    and "lacks_flags resp"
  shows "map_option errors (accountsStats (snd (executeDailyTasks env td idx s)) idx) =
           map_option errors (accountsStats s idx) \<and>
         (\<exists>evs. trace (snd (executeDailyTasks env td idx s)) = trace s @ evs \<and>
                (\<forall>e \<in> set evs. (e = VerifyDailyTask (td_token td) (td_address td) \<or>
                                  e \<in> range Sleep) \<and> \<not> is_creation_event e))"
proof -
  have 1: "executeDailyTasks env td idx s = (Inr False, s1)"
    using assms by (rule executeDailyTasks_invalid)
  from status_fetch_events [OF assms(1)] obtain evs where
    e: "accountsStats s1 = accountsStats s" "trace s1 = trace s @ evs"
      "\<forall>e \<in> set evs. (e = VerifyDailyTask (td_token td) (td_address td) \<or>
                        e \<in> range Sleep) \<and> \<not> is_creation_event e"
    by blast
  have "trace (snd (executeDailyTasks env td idx s)) = trace s @ evs"
    using 1 e(2) by simp
  with e(3) have "\<exists>evs. trace (snd (executeDailyTasks env td idx s)) = trace s @ evs \<and>
      (\<forall>e \<in> set evs. (e = VerifyDailyTask (td_token td) (td_address td) \<or>
                        e \<in> range Sleep) \<and> \<not> is_creation_event e)"
    by blast
  then show ?thesis using 1 e(1) by simp
qed

theorem missing_flags_errors_counterexample:
  "retryWithBackoff (verifyDailyTask no_flags_env (td_token session) (td_address session))
      MAX_RETRIES RETRY_DELAY one_account
     = (Inr (Some (Data \<lparr>is_create_agent = JUndefined, is_create_request = JUndefined,
                          finish_time = None\<rparr>)),
        one_account\<lparr>trace := [VerifyDailyTask (JStr ''token'') ''0xabc'']\<rparr>) \<and>
   map_option errors (accountsStats one_account 0) = Some 0 \<and>
   map_option errors (accountsStats (snd (executeDailyTasks no_flags_env session 0 one_account)) 0)
     = Some 0 \<and>
   map_option errors (accountsStats (snd (executeDailyTasks no_flags_env session 0 one_account)) 0)
     \<noteq> map_option (\<lambda>st. errors st + 1) (accountsStats one_account 0)"
  by (simp add: executeDailyTasks_def retry_default verifyDailyTask_def call_def no_flags_env_def
      base_env_def session_def one_account_def new_stats_def catch_eff_def bind_eff_def ret_def)

theorem missing_flags_errors_unchanged_witness:
  "lacks_flags (Data \<lparr>is_create_agent = JUndefined, is_create_request = JUndefined,
                       finish_time = None\<rparr>) \<and>
   map_option errors (accountsStats (snd (executeDailyTasks no_flags_env session 0 one_account)) 0)
     = Some 0 \<and>
   trace (snd (executeDailyTasks no_flags_env session 0 one_account))
     = [VerifyDailyTask (JStr ''token'') ''0xabc'']"
proof -
  let ?resp = "Data \<lparr>is_create_agent = JUndefined, is_create_request = JUndefined,
                       finish_time = None\<rparr>"
  have f: "retryWithBackoff (verifyDailyTask no_flags_env (td_token session) (td_address session))
      MAX_RETRIES RETRY_DELAY one_account
     = (Inr (Some ?resp), one_account\<lparr>trace := [VerifyDailyTask (JStr ''token'') ''0xabc'']\<rparr>)"
    by (simp add: retry_default verifyDailyTask_def call_def no_flags_env_def
      base_env_def session_def one_account_def)
  have l: "lacks_flags ?resp" by simp
  have t: "trace (snd (executeDailyTasks no_flags_env session 0 one_account))
     = [VerifyDailyTask (JStr ''token'') ''0xabc'']"
    by (simp add: executeDailyTasks_def retry_default verifyDailyTask_def call_def no_flags_env_def
      base_env_def session_def one_account_def new_stats_def catch_eff_def bind_eff_def ret_def)
  show ?thesis
    using missing_flags_errors_unchanged [OF f l, of 0] l t
    by (simp add: one_account_def new_stats_def)
qed

text \<open>
  C4. When the status response lacks a completion flag or its data, \<^verbatim>\<open>executeDailyTasks\<close>
  returns \<^verbatim>\<open>false\<close> and \<^verbatim>\<open>accountsStats\<close> is what it was: no field of any entry has
  changed, \<open>lastRun\<close> and \<open>cooldownSeconds\<close> included.
\<close>

theorem missing_flags_no_mutation:
  assumes "retryWithBackoff (verifyDailyTask env (td_token td) (td_address td))
             MAX_RETRIES RETRY_DELAY s = (Inr (Some resp), s1)"
    and "lacks_flags resp"
  shows "fst (executeDailyTasks env td idx s) = Inr False \<and>
         accountsStats (snd (executeDailyTasks env td idx s)) = accountsStats s"
proof -
  have 1: "executeDailyTasks env td idx s = (Inr False, s1)"
    using assms by (rule executeDailyTasks_invalid)
  have 2: "frame (insert (VerifyDailyTask (td_token td) (td_address td)) (range Sleep)) s s1"
    using assms(1) by (rule status_fetch_frame)
  show ?thesis using 1 2 by (simp add: frame_def)
qed

lemma no_flags_fetch:
  "retryWithBackoff (verifyDailyTask no_flags_env (td_token session) (td_address session))
      MAX_RETRIES RETRY_DELAY one_account
     = (Inr (Some (Data \<lparr>is_create_agent = JUndefined, is_create_request = JUndefined,
                          finish_time = None\<rparr>)),
        one_account\<lparr>trace := [VerifyDailyTask (JStr ''token'') ''0xabc'']\<rparr>)"
  by (simp add: retry_default verifyDailyTask_def call_def no_flags_env_def
      base_env_def session_def one_account_def)

theorem missing_flags_no_mutation_witness:
  "lacks_flags (Data \<lparr>is_create_agent = JUndefined, is_create_request = JUndefined,
                       finish_time = None\<rparr>) \<and>
   fst (executeDailyTasks no_flags_env session 0 one_account) = Inr False \<and>
   accountsStats (snd (executeDailyTasks no_flags_env session 0 one_account)) 0
     = Some (new_stats 0)"
  using missing_flags_no_mutation [OF no_flags_fetch, of 0]
  by (simp add: one_account_def)

lemma run_tasks_all_done:
  assumes "truthy (is_create_agent d)" "truthy (is_create_request d)"
  shows "catch_eff (run_tasks env tok idx d)
           (\<lambda>error. bind_eff (update_stats idx inc_errors) (\<lambda>_. ret False)) s1 =
         (case accountsStats s1 idx of
            None \<Rightarrow> (Inl TypeError, s1)
          | Some st \<Rightarrow>
              (Inr True,
               s1\<lparr>accountsStats := (accountsStats s1)(idx \<mapsto>
                     st\<lparr>lastRun := Some (date_now env (trace s1)),
                        cooldownSeconds :=
                          map_option (\<lambda>f. js_sub (js_add f 86400) (date_now env (trace s1) div 1000))
                            (finish_time d)\<rparr>)\<rparr>))"
  using assms
  by (simp add: run_tasks_def catch_eff_def bind_eff_def ret_def now_seconds_def Date_now_def
      update_stats_def option.map_comp comp_def split: option.splits)

text \<open>
  C6. When the status says that the agent and the request are both done,
  \<^verbatim>\<open>executeDailyTasks\<close> makes no call but the status query (and the waits of its
  retries), and the counters \<open>agents\<close>, \<open>requests\<close> and \<open>txs\<close> of the account are
  what they were.
\<close>

theorem all_done_idempotent:
  assumes "retryWithBackoff (verifyDailyTask env (td_token td) (td_address td))
             MAX_RETRIES RETRY_DELAY s = (Inr (Some (Data d)), s1)"
    and "truthy (is_create_agent d)" and "truthy (is_create_request d)"
  shows "map_option agents (accountsStats (snd (executeDailyTasks env td idx s)) idx) =
           map_option agents (accountsStats s idx) \<and>
         map_option requests (accountsStats (snd (executeDailyTasks env td idx s)) idx) =
           map_option requests (accountsStats s idx) \<and>
         map_option txs (accountsStats (snd (executeDailyTasks env td idx s)) idx) =
           map_option txs (accountsStats s idx) \<and>
         (\<exists>evs. trace (snd (executeDailyTasks env td idx s)) = trace s @ evs \<and>
                (\<forall>e \<in> set evs. (e = VerifyDailyTask (td_token td) (td_address td) \<or>
                                  e \<in> range Sleep) \<and> \<not> is_creation_event e))"
proof -
  have d: "is_create_agent d \<noteq> JUndefined" "is_create_request d \<noteq> JUndefined"
    using assms(2,3) by auto
  have 1: "executeDailyTasks env td idx s =
           catch_eff (run_tasks env (td_token td) idx d)
             (\<lambda>error. bind_eff (update_stats idx inc_errors) (\<lambda>_. ret False)) s1"
    using assms(1) d by (rule executeDailyTasks_valid)
  from status_fetch_events [OF assms(1)] obtain evs where
    e: "accountsStats s1 = accountsStats s" "trace s1 = trace s @ evs"
      "\<forall>e \<in> set evs. (e = VerifyDailyTask (td_token td) (td_address td) \<or>
                        e \<in> range Sleep) \<and> \<not> is_creation_event e"
    by blast
  have t: "trace (snd (executeDailyTasks env td idx s)) = trace s @ evs"
    unfolding 1 run_tasks_all_done [OF assms(2,3)] using e(2)
    by (simp split: option.splits)
  have c: "map_option agents (accountsStats (snd (executeDailyTasks env td idx s)) idx) =
             map_option agents (accountsStats s idx)"
    "map_option requests (accountsStats (snd (executeDailyTasks env td idx s)) idx) =
             map_option requests (accountsStats s idx)"
    "map_option txs (accountsStats (snd (executeDailyTasks env td idx s)) idx) =
             map_option txs (accountsStats s idx)"
    unfolding 1 run_tasks_all_done [OF assms(2,3)] using e(1)
    by (simp_all split: option.splits)
  from t e(3) have "\<exists>evs. trace (snd (executeDailyTasks env td idx s)) = trace s @ evs \<and>
      (\<forall>e \<in> set evs. (e = VerifyDailyTask (td_token td) (td_address td) \<or>
                        e \<in> range Sleep) \<and> \<not> is_creation_event e)"
    by blast
  with c show ?thesis by simp
qed

lemma all_done_fetch:
  "retryWithBackoff (verifyDailyTask all_done_env (td_token session) (td_address session))
      MAX_RETRIES RETRY_DELAY one_account
     = (Inr (Some (Data \<lparr>is_create_agent = JBool True, is_create_request = JBool True,
                          finish_time = Some 1000\<rparr>)),
        one_account\<lparr>trace := [VerifyDailyTask (JStr ''token'') ''0xabc'']\<rparr>)"
  by (simp add: retry_default verifyDailyTask_def call_def all_done_env_def
      base_env_def session_def one_account_def)

theorem all_done_idempotent_witness:
  "truthy (JBool True) \<and>
   map_option agents (accountsStats (snd (executeDailyTasks all_done_env session 0 one_account)) 0)
     = Some 0 \<and>
   map_option requests (accountsStats (snd (executeDailyTasks all_done_env session 0 one_account)) 0)
     = Some 0 \<and>
   map_option txs (accountsStats (snd (executeDailyTasks all_done_env session 0 one_account)) 0)
     = Some 0 \<and>
   trace (snd (executeDailyTasks all_done_env session 0 one_account))
     = [VerifyDailyTask (JStr ''token'') ''0xabc'']"
proof -
  have t: "trace (snd (executeDailyTasks all_done_env session 0 one_account))
     = [VerifyDailyTask (JStr ''token'') ''0xabc'']"
    using executeDailyTasks_valid [OF all_done_fetch, of 0]
    by (simp add: run_tasks_all_done one_account_def)
  show ?thesis
    using all_done_idempotent [OF all_done_fetch, of 0] t
    by (simp add: one_account_def new_stats_def)
qed

section \<open>Functions that do not throw\<close>

lemma safe_ret: "safe i (ret x)"
  by (simp add: safe_def ret_def)

lemma safe_update: "safe i (update_stats i f)"
  by (auto simp: safe_def update_stats_def split: option.splits)

lemma safe_now: "safe i (Date_now env)" "safe i (now_seconds env)"
  by (simp_all add: safe_def Date_now_def now_seconds_def)

lemma safe_bind: "safe i m \<Longrightarrow> (\<And>x. safe i (f x)) \<Longrightarrow> safe i (bind_eff m f)"
  unfolding safe_def bind_eff_def
  by (auto split: prod.splits sum.splits)

lemma safe_catch: "(\<And>e. safe i (h e)) \<Longrightarrow> safe i (catch_eff m h)"
  unfolding safe_def catch_eff_def
  by (auto split: prod.splits sum.splits)

lemma safe_if: "safe i a \<Longrightarrow> safe i b \<Longrightarrow> safe i (if c then a else b)"
  by simp

lemma createAgent_safe: "safe idx (createAgent env tok idx)"
  unfolding createAgent_def by (intro safe_catch safe_bind safe_update safe_ret)

lemma createRequest_safe: "safe idx (createRequest env tok idx)"
  unfolding createRequest_def by (intro safe_catch safe_bind safe_update safe_ret)

lemma run_tasks_safe: "safe idx (run_tasks env tok idx d)"
  unfolding run_tasks_def Let_def
  by (intro safe_bind safe_if safe_now safe_update safe_ret createAgent_safe createRequest_safe)

lemma executeDailyTasks_safe: "safe idx (executeDailyTasks env td idx)"
  unfolding executeDailyTasks_def by (intro safe_catch safe_bind safe_update safe_ret)

lemma safe_total:
  assumes "safe i m" "rel_post (step_rel E i) m" "accountsStats s i = Some st"
  shows "\<exists>x s' st'. m s = (Inr x, s') \<and> step_rel E i s s' \<and>
           accountsStats s' i = Some st' \<and> counts_step st st'"
proof -
  obtain r s' where m: "m s = (r, s')" by (cases "m s")
  have R: "step_rel E i s s'" using assms(2) m by (rule rel_postD)
  then obtain st' where st': "accountsStats s' i = Some st'" "counts_step st st'"
    using assms(3) by (auto simp: step_rel_def entry_step_def)
  have "\<exists>x. r = Inr x"
  proof (cases r)
    case (Inl e)
    with m assms(1) have "accountsStats s' i = None" by (auto simp: safe_def)
    with st' show ?thesis by simp
  qed simp
  with m R st' show ?thesis by auto
qed

lemma rp_ret_step: "rel_post (step_rel E i) (ret x)"
  by (rule rp_ret) (rule step_rel_preorder)

lemma run_tasks_cooldown:
  assumes "accountsStats s1 idx = Some st"
  shows "\<exists>s' st'. run_tasks env tok idx d s1 = (Inr True, s') \<and>
           accountsStats s' idx = Some st' \<and>
           cooldownSeconds st' =
             map_option (\<lambda>f. js_sub (js_add f 86400) (date_now env (trace s1) div 1000)) (finish_time d)"
proof -
  let ?E = "{e. \<not> is_auth_event e}"
  let ?m1 = "if \<not> truthy (is_create_agent d) then createAgent env tok idx else ret False"
  let ?m2 = "if \<not> truthy (is_create_request d) then createRequest env tok idx else ret False"
  have "safe idx ?m1" "rel_post (step_rel ?E idx) ?m1"
    by (simp_all add: createAgent_safe safe_ret createAgent_step rp_ret_step)
  from safe_total [OF this assms] obtain a s2 st2
    where 1: "?m1 s1 = (Inr a, s2)" "accountsStats s2 idx = Some st2" by blast
  have "safe idx ?m2" "rel_post (step_rel ?E idx) ?m2"
    by (simp_all add: createRequest_safe safe_ret createRequest_step rp_ret_step)
  from safe_total [OF this 1(2)] obtain b s3 st3
    where 2: "?m2 s2 = (Inr b, s3)" "accountsStats s3 idx = Some st3" by blast
  show ?thesis
    using 1 2
    by (simp add: run_tasks_def bind_eff_def now_seconds_def Date_now_def update_stats_def ret_def
        option.map_comp comp_def)
qed

lemma executeDailyTasks_cooldown:
  assumes "retryWithBackoff (verifyDailyTask env (td_token td) (td_address td))
             MAX_RETRIES RETRY_DELAY s = (Inr (Some (Data d)), s1)"
    and "is_create_agent d \<noteq> JUndefined" and "is_create_request d \<noteq> JUndefined"
    and "accountsStats s idx = Some st"
  shows "fst (executeDailyTasks env td idx s) = Inr True \<and>
         map_option cooldownSeconds (accountsStats (snd (executeDailyTasks env td idx s)) idx) =
           Some (map_option (\<lambda>T. js_sub (js_add T 86400) (date_now env (trace s1) div 1000))
                   (finish_time d))"
proof -
  have 1: "executeDailyTasks env td idx s =
           catch_eff (run_tasks env (td_token td) idx d)
             (\<lambda>error. bind_eff (update_stats idx inc_errors) (\<lambda>_. ret False)) s1"
    using assms(1,2,3) by (rule executeDailyTasks_valid)
  have "frame (insert (VerifyDailyTask (td_token td) (td_address td)) (range Sleep)) s s1"
    using assms(1) by (rule status_fetch_frame)
  then have "accountsStats s1 idx = Some st" using assms(4) by (simp add: frame_def)
  from run_tasks_cooldown [OF this, of env "td_token td" d] obtain s' st'
    where 2: "run_tasks env (td_token td) idx d s1 = (Inr True, s')"
      "accountsStats s' idx = Some st'"
      "cooldownSeconds st' =
         map_option (\<lambda>f. js_sub (js_add f 86400) (date_now env (trace s1) div 1000)) (finish_time d)"
    by auto
  show ?thesis unfolding 1 using 2 by (auto simp: catch_eff_def)
qed

text \<open>
  C8 (as amended). Once the status has passed the two validations, the account's
  \<open>cooldownSeconds\<close> after \<^verbatim>\<open>executeDailyTasks\<close> is \<^verbatim>\<open>finish_time + 86400 - now\<close> in the number
  arithmetic of JavaScript, each operation rounded to the nearest double, where \<open>now\<close> is the
  clock in whole seconds read right after the status query (and NaN when the response
  has no \<^verbatim>\<open>finish_time\<close>). This holds whatever the two flags say and whatever the creation
  steps do. When \<open>finish_time + 86400\<close> and \<open>finish_time + 86400 - now\<close> lie within
  \<open>2 ^ 53\<close> of zero, the stored value is the exact integer \<open>finish_time + 86400 - now\<close>; in
  that range \<open>finish_time = T\<close> and \<open>now = T + 3600\<close> give 82800.
\<close>

theorem cooldown_stored:
  assumes "retryWithBackoff (verifyDailyTask env (td_token td) (td_address td))
             MAX_RETRIES RETRY_DELAY s = (Inr (Some (Data d)), s1)"
    and "is_create_agent d \<noteq> JUndefined" and "is_create_request d \<noteq> JUndefined"
    and "accountsStats s idx = Some st"
  shows "fst (executeDailyTasks env td idx s) = Inr True \<and>
         map_option cooldownSeconds (accountsStats (snd (executeDailyTasks env td idx s)) idx) =
           Some (map_option (\<lambda>T. js_sub (js_add T 86400) (date_now env (trace s1) div 1000))
                   (finish_time d)) \<and>
         (finish_time d = Some T \<and> \<bar>T + 86400\<bar> \<le> 2 ^ 53 \<and>
          \<bar>T + 86400 - date_now env (trace s1) div 1000\<bar> \<le> 2 ^ 53 \<longrightarrow>
          map_option cooldownSeconds (accountsStats (snd (executeDailyTasks env td idx s)) idx) =
            Some (Some (T + 86400 - date_now env (trace s1) div 1000))) \<and>
         (finish_time d = Some T \<and> \<bar>T + 86400\<bar> \<le> 2 ^ 53 \<and>
          date_now env (trace s1) div 1000 = T + 3600 \<longrightarrow>
          map_option cooldownSeconds (accountsStats (snd (executeDailyTasks env td idx s)) idx) =
            Some (Some 82800))"
proof -
  note c = executeDailyTasks_cooldown [OF assms]
  have exact: "js_sub (js_add T 86400) n = T + 86400 - n"
    if "\<bar>T + 86400\<bar> \<le> 2 ^ 53" "\<bar>T + 86400 - n\<bar> \<le> 2 ^ 53" for n
    using that by (simp add: js_add_safe js_sub_safe)
  have day: "js_sub (js_add T 86400) (T + 3600) = 82800" if "\<bar>T + 86400\<bar> \<le> 2 ^ 53"
    using that by (simp add: js_add_safe js_sub_safe)
  show ?thesis using c exact day by auto
qed

lemma base_fetch:
  "retryWithBackoff (verifyDailyTask base_env (td_token session) (td_address session))
      MAX_RETRIES RETRY_DELAY one_account
     = (Inr (Some (Data \<lparr>is_create_agent = JBool False, is_create_request = JBool False,
                          finish_time = Some 1000\<rparr>)),
        one_account\<lparr>trace := [VerifyDailyTask (JStr ''token'') ''0xabc'']\<rparr>)"
  by (simp add: retry_default verifyDailyTask_def call_def
      base_env_def session_def one_account_def)

theorem cooldown_stored_witness:
  "JBool False \<noteq> JUndefined \<and>
   accountsStats one_account 0 = Some (new_stats 0) \<and>
   \<bar>(1000::int) + 86400\<bar> \<le> 2 ^ 53 \<and> \<bar>(1000::int) + 86400 - 4600\<bar> \<le> 2 ^ 53 \<and>
   fst (executeDailyTasks base_env session 0 one_account) = Inr True \<and>
   map_option cooldownSeconds (accountsStats (snd (executeDailyTasks base_env session 0 one_account)) 0)
     = Some (Some 82800)"
  using cooldown_stored [OF base_fetch, of 0 "new_stats 0" 1000]
  by (simp add: one_account_def base_env_def)

lemma huge_finish_fetch:
  "retryWithBackoff (verifyDailyTask huge_finish_env (td_token session) (td_address session))
      MAX_RETRIES RETRY_DELAY one_account
     = (Inr (Some (Data \<lparr>is_create_agent = JBool True, is_create_request = JBool True,
                          finish_time = Some 9007199254740992\<rparr>)),
        one_account\<lparr>trace := [VerifyDailyTask (JStr ''token'') ''0xabc'']\<rparr>)"
  by (simp add: retry_default verifyDailyTask_def call_def huge_finish_env_def
      base_env_def session_def one_account_def)

lemma huge_finish_rounding: "js_sub (js_add 9007199254740992 86400) 4601 = 9007199254822792"
  by code_simp

theorem cooldown_exact_counterexample:
  "finish_time \<lparr>is_create_agent = JBool True, is_create_request = JBool True,
                finish_time = Some 9007199254740992\<rparr> = Some 9007199254740992 \<and>
   date_now huge_finish_env [VerifyDailyTask (JStr ''token'') ''0xabc''] div 1000 = 4601 \<and>
   (9007199254740992::int) + 86400 - 4601 = 9007199254822791 \<and>
   map_option cooldownSeconds
     (accountsStats (snd (executeDailyTasks huge_finish_env session 0 one_account)) 0)
     = Some (Some 9007199254822792)"
  using executeDailyTasks_cooldown [OF huge_finish_fetch, of 0 "new_stats 0"]
  by (simp add: one_account_def huge_finish_env_def base_env_def huge_finish_rounding)

section \<open>Invalid generated content\<close>

lemma step_rel_prefix: "step_rel E i a b \<Longrightarrow> prefix (trace a) (trace b)"
  by (auto simp: step_rel_def)

lemma trace_prefix_catch_bind:
  assumes "prefix P (trace (snd (m s)))"
    and "\<And>x. rel_post (step_rel E i) (K x)" and "\<And>e. rel_post (step_rel E i) (h e)"
  shows "prefix P (trace (snd (catch_eff (bind_eff m K) h s)))"
proof -
  obtain r s0 where m: "m s = (r, s0)" by (cases "m s")
  have p0: "prefix P (trace s0)" using assms(1) m by simp
  show ?thesis
  proof (cases r)
    case (Inl e)
    obtain r1 s1 where h: "h e s0 = (r1, s1)" by (cases "h e s0")
    have "prefix (trace s0) (trace s1)"
      using rel_postD [OF assms(3) h] by (rule step_rel_prefix)
    with p0 show ?thesis using m Inl h by (simp add: catch_eff_def bind_eff_def)
  next
    case (Inr x)
    obtain r1 s1 where k: "K x s0 = (r1, s1)" by (cases "K x s0")
    have p1: "prefix P (trace s1)"
      using p0 step_rel_prefix [OF rel_postD [OF assms(2) k]] by simp
    show ?thesis
    proof (cases r1)
      case (Inr y)
      then show ?thesis using m \<open>r = Inr x\<close> k p1 by (simp add: catch_eff_def bind_eff_def)
    next
      case (Inl e)
      obtain r2 s2 where h: "h e s1 = (r2, s2)" by (cases "h e s1")
      have "prefix (trace s1) (trace s2)"
        using rel_postD [OF assms(3) h] by (rule step_rel_prefix)
      with p1 show ?thesis using m \<open>r = Inr x\<close> k Inl h by (simp add: catch_eff_def bind_eff_def)
    qed
  qed
qed

lemma createRequest_first_event:
  "prefix (trace s @ [GenerateAIResponse ''create request'' ''createRequest''])
     (trace (snd (createRequest env tok idx s)))"
  unfolding createRequest_def update_fuse
  apply (rule trace_prefix_catch_bind [where E = "{e. \<not> is_auth_event e}" and i = idx])
    apply (simp add: generateAIResponse_def call_def)
   apply (unfold createNewRequest_def contractCall_def)
   apply (intro rp_structure rp_call_step rp_sleep_step rp_update_step step_rel_preorder;
      simp add: counts_step_def inc_requests_def inc_txs_def)
  apply (intro rp_structure rp_update_step step_rel_preorder;
      simp add: counts_step_def inc_errors_def)
  done

lemma createAgent_invalid_content:
  assumes "generateAIResponse_reply env
             (trace s1 @ [GenerateAIResponse ''create agent'' ''createAgent'']) = Inr text"
    and "JSON_parse env text = Inr parsed"
    and "\<not> truthy (name_agent (case parsed of None \<Rightarrow> default_agent | Some a \<Rightarrow> a)) \<or>
         \<not> truthy (description (case parsed of None \<Rightarrow> default_agent | Some a \<Rightarrow> a))"
  shows "createAgent env tok idx s1 =
           (Inr False, s1\<lparr>trace := trace s1 @ [GenerateAIResponse ''create agent'' ''createAgent'']\<rparr>)"
  using assms
  by (auto simp: createAgent_def generateAIResponse_def call_def bind_eff_def catch_eff_def
      lift_result_def ret_def Let_def)

lemma createAgent_unparsable_content:
  assumes "generateAIResponse_reply env
             (trace s1 @ [GenerateAIResponse ''create agent'' ''createAgent'']) = Inr text"
    and "JSON_parse env text = Inl e"
    and "accountsStats s1 idx = Some st"
  shows "createAgent env tok idx s1 =
           (Inr False,
            s1\<lparr>trace := trace s1 @ [GenerateAIResponse ''create agent'' ''createAgent''],
               accountsStats := (accountsStats s1)(idx \<mapsto> inc_errors st)\<rparr>)"
  using assms
  by (simp add: createAgent_def generateAIResponse_def call_def bind_eff_def catch_eff_def
      lift_result_def ret_def update_stats_def)

text \<open>
  C5 (as amended). The agent task and the request task of a configured account are
  pending, and the generated agent content is unusable: it does not parse, or it parses
  without a name or without a description. Then \<^verbatim>\<open>createAgent\<close> returns \<^verbatim>\<open>false\<close> having made
  no call but the generation itself: no agent is submitted and nothing is registered
  on-chain. When the content parses, no statistic of the account changes, the \<open>errors\<close>
  counter included; when it does not parse, \<open>errors\<close> grows by one and nothing else
  changes. In both cases the next call of the same \<^verbatim>\<open>executeDailyTasks\<close> is the generation
  of the request content: only the agent step has been skipped.
\<close>

theorem invalid_agent_content_skips_agent_only:
  assumes "retryWithBackoff (verifyDailyTask env (td_token td) (td_address td))
             MAX_RETRIES RETRY_DELAY s = (Inr (Some (Data d)), s1)"
    and "is_create_agent d \<noteq> JUndefined" and "\<not> truthy (is_create_agent d)"
    and "is_create_request d \<noteq> JUndefined" and "\<not> truthy (is_create_request d)"
    and "accountsStats s idx = Some st"
    and "generateAIResponse_reply env
             (trace s1 @ [GenerateAIResponse ''create agent'' ''createAgent'']) = Inr text"
    and "(\<exists>e. JSON_parse env text = Inl e) \<or>
         (\<exists>parsed. JSON_parse env text = Inr parsed \<and>
            (\<not> truthy (name_agent (case parsed of None \<Rightarrow> default_agent | Some a \<Rightarrow> a)) \<or>
             \<not> truthy (description (case parsed of None \<Rightarrow> default_agent | Some a \<Rightarrow> a))))"
  shows "(\<forall>parsed. JSON_parse env text = Inr parsed \<longrightarrow>
            createAgent env (td_token td) idx s1 =
              (Inr False,
               s1\<lparr>trace := trace s1 @ [GenerateAIResponse ''create agent'' ''createAgent'']\<rparr>)) \<and>
         (\<forall>e. JSON_parse env text = Inl e \<longrightarrow>
            createAgent env (td_token td) idx s1 =
              (Inr False,
               s1\<lparr>trace := trace s1 @ [GenerateAIResponse ''create agent'' ''createAgent''],
                  accountsStats := (accountsStats s1)(idx \<mapsto> inc_errors st)\<rparr>)) \<and>
         prefix (trace s1 @ [GenerateAIResponse ''create agent'' ''createAgent'',
                             GenerateAIResponse ''create request'' ''createRequest''])
           (trace (snd (executeDailyTasks env td idx s)))"
proof -
  let ?G = "GenerateAIResponse ''create agent'' ''createAgent''"
  have "frame (insert (VerifyDailyTask (td_token td) (td_address td)) (range Sleep)) s s1"
    using assms(1) by (rule status_fetch_frame)
  then have st1: "accountsStats s1 idx = Some st" using assms(6) by (simp add: frame_def)
  have parsed: "createAgent env (td_token td) idx s1 = (Inr False, s1\<lparr>trace := trace s1 @ [?G]\<rparr>)"
    if "JSON_parse env text = Inr parsed" for parsed
    using assms(8) that by (intro createAgent_invalid_content [OF assms(7) that]) auto
  have unparsable: "createAgent env (td_token td) idx s1 =
      (Inr False, s1\<lparr>trace := trace s1 @ [?G],
                     accountsStats := (accountsStats s1)(idx \<mapsto> inc_errors st)\<rparr>)"
    if "JSON_parse env text = Inl e" for e
    using assms(7) that st1 by (rule createAgent_unparsable_content)
  obtain s2 where a: "createAgent env (td_token td) idx s1 = (Inr False, s2)"
    and t2: "trace s2 = trace s1 @ [?G]"
  proof (cases "JSON_parse env text")
    case (Inl e)
    from unparsable [OF this] show ?thesis by (rule that) simp
  next
    case (Inr p)
    from parsed [OF this] show ?thesis by (rule that) simp
  qed
  obtain r3 s3 where q: "createRequest env (td_token td) idx s2 = (r3, s3)"
    by (cases "createRequest env (td_token td) idx s2")
  have p: "prefix (trace s2 @ [GenerateAIResponse ''create request'' ''createRequest'']) (trace s3)"
    using createRequest_first_event [of s2 env "td_token td" idx] q by simp
  have 1: "executeDailyTasks env td idx s =
           catch_eff (run_tasks env (td_token td) idx d)
             (\<lambda>error. bind_eff (update_stats idx inc_errors) (\<lambda>_. ret False)) s1"
    using assms(1,2,4) by (rule executeDailyTasks_valid)
  have "trace (snd (executeDailyTasks env td idx s)) = trace s3"
    unfolding 1 using assms(3,5) a q
    by (simp add: run_tasks_def bind_eff_def catch_eff_def now_seconds_def Date_now_def
        update_stats_def ret_def split: option.splits sum.splits)
  with p t2 parsed unparsable show ?thesis by simp
qed

lemma empty_name_fetch:
  "retryWithBackoff (verifyDailyTask empty_name_env (td_token session) (td_address session))
      MAX_RETRIES RETRY_DELAY one_account
     = (Inr (Some (Data \<lparr>is_create_agent = JBool False, is_create_request = JBool False,
                          finish_time = Some 1000\<rparr>)),
        one_account\<lparr>trace := [VerifyDailyTask (JStr ''token'') ''0xabc'']\<rparr>)"
  by (simp add: retry_default verifyDailyTask_def call_def empty_name_env_def
      base_env_def session_def one_account_def)

theorem invalid_agent_content_counterexample:
  "createAgent empty_name_env (JStr ''token'') 0
      (one_account\<lparr>trace := [VerifyDailyTask (JStr ''token'') ''0xabc'']\<rparr>) =
     (Inr False,
      one_account\<lparr>trace := [VerifyDailyTask (JStr ''token'') ''0xabc'',
                             GenerateAIResponse ''create agent'' ''createAgent'']\<rparr>) \<and>
   map_option errors (accountsStats one_account 0) = Some 0 \<and>
   map_option errors
     (accountsStats (snd (createAgent empty_name_env (JStr ''token'') 0
        (one_account\<lparr>trace := [VerifyDailyTask (JStr ''token'') ''0xabc'']\<rparr>))) 0) = Some 0"
  by (simp add: createAgent_def generateAIResponse_def call_def bind_eff_def catch_eff_def
      lift_result_def ret_def empty_name_env_def base_env_def one_account_def new_stats_def)

lemma unparsable_fetch:
  "retryWithBackoff (verifyDailyTask unparsable_env (td_token session) (td_address session))
      MAX_RETRIES RETRY_DELAY one_account
     = (Inr (Some (Data \<lparr>is_create_agent = JBool False, is_create_request = JBool False,
                          finish_time = Some 1000\<rparr>)),
        one_account\<lparr>trace := [VerifyDailyTask (JStr ''token'') ''0xabc'']\<rparr>)"
  by (simp add: retry_default verifyDailyTask_def call_def unparsable_env_def
      base_env_def session_def one_account_def)

theorem invalid_agent_content_skips_agent_only_witness:
  "JBool False \<noteq> JUndefined \<and> \<not> truthy (JBool False) \<and>
   accountsStats one_account 0 = Some (new_stats 0) \<and>
   JSON_parse empty_name_env ''{}'' =
     Inr (Some \<lparr>name_agent = JStr [], title = JStr ''title'', description = JStr ''text''\<rparr>) \<and>
   createAgent empty_name_env (JStr ''token'') 0
      (one_account\<lparr>trace := [VerifyDailyTask (JStr ''token'') ''0xabc'']\<rparr>) =
     (Inr False,
      one_account\<lparr>trace := [VerifyDailyTask (JStr ''token'') ''0xabc'',
                             GenerateAIResponse ''create agent'' ''createAgent'']\<rparr>) \<and>
   prefix [VerifyDailyTask (JStr ''token'') ''0xabc'',
           GenerateAIResponse ''create agent'' ''createAgent'',
           GenerateAIResponse ''create request'' ''createRequest'']
     (trace (snd (executeDailyTasks empty_name_env session 0 one_account))) \<and>
   JSON_parse unparsable_env ''{}'' = Inl (Thrown ''SyntaxError'') \<and>
   createAgent unparsable_env (JStr ''token'') 0
      (one_account\<lparr>trace := [VerifyDailyTask (JStr ''token'') ''0xabc'']\<rparr>) =
     (Inr False,
      one_account\<lparr>trace := [VerifyDailyTask (JStr ''token'') ''0xabc'',
                             GenerateAIResponse ''create agent'' ''createAgent''],
                    accountsStats := [0 \<mapsto> (new_stats 0)\<lparr>errors := 1\<rparr>]\<rparr>) \<and>
   prefix [VerifyDailyTask (JStr ''token'') ''0xabc'',
           GenerateAIResponse ''create agent'' ''createAgent'',
           GenerateAIResponse ''create request'' ''createRequest'']
     (trace (snd (executeDailyTasks unparsable_env session 0 one_account)))"
  using invalid_agent_content_skips_agent_only [OF empty_name_fetch, of 0 "new_stats 0" "''{}''"]
    invalid_agent_content_skips_agent_only [OF unparsable_fetch, of 0 "new_stats 0" "''{}''"]
  by (simp add: empty_name_env_def unparsable_env_def base_env_def session_def one_account_def
      inc_errors_def new_stats_def)

text \<open>The whole run on that input: the request is created and registered.\<close>

lemma empty_name_run:
  "executeDailyTasks empty_name_env session 0 one_account =
    (Inr True,
     \<lparr>trace = [VerifyDailyTask (JStr ''token'') ''0xabc'',
           GenerateAIResponse ''create agent'' ''createAgent'',
           GenerateAIResponse ''create request'' ''createRequest'',
           CreateNewRequest (JStr ''token'') (JStr ''title'') (JStr ''text''),
           ContractCall ''addNewRequest'' [JNum 12, JStr ''title'']],
      accountsStats = [0 \<mapsto> (new_stats 0)\<lparr>requests := 1, txs := 1, lastRun := Some 4600000,
                                   cooldownSeconds := Some 82800\<rparr>],
      tokenDataArray = [None], cycleCount = 0\<rparr>)"
  by (simp add: executeDailyTasks_def run_tasks_def createAgent_def createRequest_def
      retry_default verifyDailyTask_def generateAIResponse_def createNewRequest_def
      contractCall_def call_def bind_eff_def catch_eff_def lift_result_def ret_def
      now_seconds_def Date_now_def update_stats_def inc_requests_def inc_txs_def Let_def
      js_add_safe js_sub_safe empty_name_env_def base_env_def session_def one_account_def new_stats_def)

section \<open>Sessions\<close>

lemma getToken_returns: "\<exists>r. fst (getToken env key idx s) = Inr r"
  unfolding getToken_def catch_eff_def ret_def
  by (auto split: prod.splits sum.splits)

lemma getToken_events:
  "\<exists>evs addr nonce sg tok.
     trace (snd (getToken env key idx s)) = trace s @ evs \<and>
     prefix evs [GetNonce addr, Sign key nonce, Login addr sg nonce, SetInviter tok]"
  unfolding getToken_def getNonce_def sign_with_private_key_def login_def setInviter_def
    catch_eff_def bind_eff_def ret_def throw_def call_def lift_result_def
  by (auto split: prod.splits sum.splits response.splits option.splits if_splits
      simp: prefix_def)

lemma getToken_first_event:
  assumes "key \<noteq> []" "wallet_address env key = Inr addr"
  shows "\<exists>rest. trace (snd (getToken env key idx s)) = trace s @ GetNonce addr # rest"
  using assms
  unfolding getToken_def getNonce_def sign_with_private_key_def login_def setInviter_def
    catch_eff_def bind_eff_def ret_def throw_def call_def lift_result_def
  by (auto split: prod.splits sum.splits response.splits option.splits if_splits)

lemma checkTokenValid_eq:
  "checkTokenValid env (Some t) s = (Inr (\<not> (date_now env (trace s) div 1000 \<ge> t)), s)"
  by (simp add: checkTokenValid_def bind_eff_def now_seconds_def ret_def)

lemma processAccount_valid_token:
  assumes "td_token_expire_time td = Some t" "date_now env (trace s) div 1000 < t"
  shows "processAccount env key idx (Some td) s =
           catch_eff (after_auth env td idx) (\<lambda>error. account_failed idx (Some td)) s"
  using assms
  by (simp add: processAccount_def authenticate_def checkTokenValid_eq bind_eff_def ret_def)

lemma processAccount_reauth:
  assumes "carried = None \<or>
           (\<exists>td t. carried = Some td \<and> td_token_expire_time td = Some t \<and>
                   date_now env (trace s) div 1000 \<ge> t)"
  shows "processAccount env key idx carried s =
           (case getToken env key idx s of
              (Inl error, s1) \<Rightarrow> account_failed idx carried s1
            | (Inr None, s1) \<Rightarrow> (Inr None, s1)
            | (Inr (Some td'), s1) \<Rightarrow>
                catch_eff (after_auth env td' idx) (\<lambda>error. account_failed idx (Some td')) s1)"
  using assms
  by (auto simp: processAccount_def authenticate_def checkTokenValid_eq bind_eff_def)

lemma tasks_step:
  "rel_post (step_rel {e. \<not> is_auth_event e} idx)
     (catch_eff (after_auth env td idx) (\<lambda>error. account_failed idx cur))"
  by (intro rp_catch step_rel_preorder after_auth_step account_failed_step)

lemma tasks_events:
  "\<exists>evs. trace (snd (catch_eff (after_auth env td idx) (\<lambda>error. account_failed idx cur) s))
            = trace s @ evs \<and> (\<forall>e \<in> set evs. \<not> is_auth_event e)"
proof -
  have "step_rel {e. \<not> is_auth_event e} idx s
          (snd (catch_eff (after_auth env td idx) (\<lambda>error. account_failed idx cur) s))"
    using tasks_step by (simp add: rel_post_def)
  then show ?thesis by (auto simp: step_rel_def)
qed

text \<open>
  C7. \<^verbatim>\<open>checkTokenValid\<close> changes nothing and answers \<^verbatim>\<open>false\<close> exactly when the clock, in
  whole seconds, has reached the expiry time. An account that carries a session whose
  expiry lies ahead is processed without any call of the authentication handshake. When
  the expiry has been reached, the account is processed as one run of \<^verbatim>\<open>getToken\<close> (at
  most one nonce, one signature, one login, one inviter call, in that order, and at least
  the nonce request when the key has an address) followed only by calls that do not
  belong to the handshake.
\<close>

theorem session_reuse:
  assumes "td_token_expire_time td = Some t"
  shows "checkTokenValid env (Some t) s = (Inr (\<not> (date_now env (trace s) div 1000 \<ge> t)), s) \<and>
         (date_now env (trace s) div 1000 < t \<longrightarrow>
            (\<exists>evs. trace (snd (processAccount env key idx (Some td) s)) = trace s @ evs \<and>
                   (\<forall>e \<in> set evs. \<not> is_auth_event e))) \<and>
         (date_now env (trace s) div 1000 \<ge> t \<longrightarrow>
            (\<exists>auth evs addr nonce sg tok.
                trace (snd (getToken env key idx s)) = trace s @ auth \<and>
                prefix auth [GetNonce addr, Sign key nonce, Login addr sg nonce, SetInviter tok] \<and>
                (\<forall>a. key \<noteq> [] \<and> wallet_address env key = Inr a \<longrightarrow>
                     (\<exists>rest. auth = GetNonce a # rest)) \<and>
                trace (snd (processAccount env key idx (Some td) s)) = trace s @ auth @ evs \<and>
                (\<forall>e \<in> set evs. \<not> is_auth_event e)))"
proof (intro conjI impI)
  show "checkTokenValid env (Some t) s = (Inr (\<not> (date_now env (trace s) div 1000 \<ge> t)), s)"
    by (rule checkTokenValid_eq)
next
  assume "date_now env (trace s) div 1000 < t"
  with assms have "processAccount env key idx (Some td) s =
      catch_eff (after_auth env td idx) (\<lambda>error. account_failed idx (Some td)) s"
    by (rule processAccount_valid_token)
  then show "\<exists>evs. trace (snd (processAccount env key idx (Some td) s)) = trace s @ evs \<and>
                   (\<forall>e \<in> set evs. \<not> is_auth_event e)"
    using tasks_events [of env td idx "Some td" s] by simp
next
  assume exp: "date_now env (trace s) div 1000 \<ge> t"
  obtain r s1 where g: "getToken env key idx s = (Inr r, s1)"
    using getToken_returns [of env key idx s] by (cases "getToken env key idx s") auto
  from getToken_events [of env key idx s] g obtain auth addr0 nonce sg tok
    where a: "trace s1 = trace s @ auth"
      "prefix auth [GetNonce addr0, Sign key nonce, Login addr0 sg nonce, SetInviter tok]"
    by auto
  have ne: "\<exists>rest. auth = GetNonce addr # rest"
    if "key \<noteq> []" "wallet_address env key = Inr addr" for addr
    using getToken_first_event [OF that, of idx s] g a(1) by auto
  have p: "processAccount env key idx (Some td) s =
           (case r of None \<Rightarrow> (Inr None, s1)
            | Some td' \<Rightarrow>
                catch_eff (after_auth env td' idx) (\<lambda>error. account_failed idx (Some td')) s1)"
    using processAccount_reauth [of "Some td" env s key idx] assms exp g by simp
  have "\<exists>evs. trace (snd (processAccount env key idx (Some td) s)) = trace s1 @ evs \<and>
                   (\<forall>e \<in> set evs. \<not> is_auth_event e)"
  proof (cases r)
    case None
    then show ?thesis using p by simp
  next
    case (Some td')
    then show ?thesis using p tasks_events [of env td' idx "Some td'" s1] by simp
  qed
  then obtain evs where e: "trace (snd (processAccount env key idx (Some td) s)) = trace s1 @ evs"
    "\<forall>e \<in> set evs. \<not> is_auth_event e" by blast
  show "\<exists>auth evs addr nonce sg tok.
                trace (snd (getToken env key idx s)) = trace s @ auth \<and>
                prefix auth [GetNonce addr, Sign key nonce, Login addr sg nonce, SetInviter tok] \<and>
                (\<forall>a. key \<noteq> [] \<and> wallet_address env key = Inr a \<longrightarrow>
                     (\<exists>rest. auth = GetNonce a # rest)) \<and>
                trace (snd (processAccount env key idx (Some td) s)) = trace s @ auth @ evs \<and>
                (\<forall>e \<in> set evs. \<not> is_auth_event e)"
    apply (rule exI [of _ auth], rule exI [of _ evs], rule exI [of _ addr0],
        rule exI [of _ nonce], rule exI [of _ sg], rule exI [of _ tok])
    using g a e ne apply simp
    done
qed

lemmas run_defs =
  processAccount_def authenticate_def checkTokenValid_def getToken_def after_auth_def
  refresh_user_data_def account_failed_def executeDailyTasks_def run_tasks_def createAgent_def
  createRequest_def retry_default getNonce_def sign_with_private_key_def login_def
  setInviter_def verifyDailyTask_def generateAIResponse_def createNewAgent_def
  createNewRequest_def contractCall_def getUserData_def call_def bind_eff_def catch_eff_def
  lift_result_def ret_def throw_def now_seconds_def Date_now_def update_stats_def
  inc_agents_def inc_requests_def inc_txs_def inc_errors_def Let_def js_add_safe js_sub_safe

text \<open>Both tasks pending and every collaborator answering: one agent, one request, two
  transactions, no error.\<close>

lemma base_account_run:
  "processAccount base_env ''0xkey'' 0 (Some session) one_account =
     (Inr (Some session),
      \<lparr>trace =
         [VerifyDailyTask (JStr ''token'') ''0xabc'',
          GenerateAIResponse ''create agent'' ''createAgent'',
          CreateNewAgent (JStr ''token'') (JStr ''name'') (JStr ''text''),
          ContractCall ''addNewAgent'' [JNum 11, JStr ''name'', JStr ''text''],
          GenerateAIResponse ''create request'' ''createRequest'',
          CreateNewRequest (JStr ''token'') (JStr ''title'') (JStr ''text''),
          ContractCall ''addNewRequest'' [JNum 12, JStr ''title''],
          GetUserData (JStr ''token'')],
       accountsStats =
         [0 \<mapsto> \<lparr>uid = JStr ''uid'', totalPoint = JNum 795, days = JNum 3, agents = 1,
                 requests = 1, txs = 2, errors = 0, lastRun = Some 4600000, startTime = 0,
                 cooldownSeconds = Some 82800\<rparr>],
       tokenDataArray = [None], cycleCount = 0\<rparr>)"
  by (simp add: run_defs base_env_def session_def one_account_def new_stats_def)

lemma late_account_run:
  "trace (snd (processAccount late_env ''0xkey'' 0 (Some session) one_account)) =
         [GetNonce ''0xabc'', Sign ''0xkey'' (JStr ''nonce''),
          Login ''0xabc'' (JStr ''signature'') (JStr ''nonce''),
          SetInviter (JStr ''token''),
          VerifyDailyTask (JStr ''token'') ''0xabc'',
          GenerateAIResponse ''create agent'' ''createAgent'',
          CreateNewAgent (JStr ''token'') (JStr ''name'') (JStr ''text''),
          ContractCall ''addNewAgent'' [JNum 11, JStr ''name'', JStr ''text''],
          GenerateAIResponse ''create request'' ''createRequest'',
          CreateNewRequest (JStr ''token'') (JStr ''title'') (JStr ''text''),
          ContractCall ''addNewRequest'' [JNum 12, JStr ''title''],
          GetUserData (JStr ''token'')]"
  by (simp add: run_defs late_env_def base_env_def session_def one_account_def new_stats_def)

theorem session_reuse_witness:
  "td_token_expire_time session = Some 9000 \<and>
   checkTokenValid base_env (Some 9000) one_account = (Inr True, one_account) \<and>
   checkTokenValid late_env (Some 9000) one_account = (Inr False, one_account) \<and>
   date_now base_env (trace one_account) div 1000 < 9000 \<and>
   list_all (\<lambda>e. \<not> is_auth_event e)
     (trace (snd (processAccount base_env ''0xkey'' 0 (Some session) one_account))) \<and>
   date_now late_env (trace one_account) div 1000 \<ge> 9000 \<and>
   take 4 (trace (snd (processAccount late_env ''0xkey'' 0 (Some session) one_account))) =
     [GetNonce ''0xabc'', Sign ''0xkey'' (JStr ''nonce''),
      Login ''0xabc'' (JStr ''signature'') (JStr ''nonce''), SetInviter (JStr ''token'')] \<and>
   list_all (\<lambda>e. \<not> is_auth_event e)
     (drop 4 (trace (snd (processAccount late_env ''0xkey'' 0 (Some session) one_account))))"
  using session_reuse [of session 9000 base_env one_account "''0xkey''" 0]
    session_reuse [of session 9000 late_env one_account "''0xkey''" 0]
  by (simp add: base_account_run late_account_run)
     (simp add: session_def late_env_def base_env_def one_account_def)

section \<open>Authentication failure\<close>

lemma array_get_set: "array_get (array_set xs i v) i = v"
  by (simp add: array_get_def array_set_def nth_append)

lemma array_set_length: "i < length xs \<Longrightarrow> length (array_set xs i v) = length xs"
  by (simp add: array_set_def)

lemma getToken_frame_state:
  "frame (Collect is_auth_event) s (snd (getToken env key idx s))"
  using getToken_frame by (simp add: rel_post_def)

lemma processAccount_auth_failure:
  assumes "carried = None \<or>
           (\<exists>td t. carried = Some td \<and> td_token_expire_time td = Some t \<and>
                   date_now env (trace s) div 1000 \<ge> t)"
    and "fst (getToken env key idx s) = Inr None"
  shows "processAccount env key idx carried s = (Inr None, snd (getToken env key idx s))"
  unfolding processAccount_reauth [OF assms(1)] using assms(2)
  by (cases "getToken env key idx s") simp

text \<open>
  C9. The account has no session, or one that has expired, and \<^verbatim>\<open>getToken\<close> returns
  \<^verbatim>\<open>null\<close> (it does so for a missing nonce, a missing token and a thrown error alike). Then
  \<^verbatim>\<open>processAccount\<close> returns \<^verbatim>\<open>null\<close> and \<^verbatim>\<open>accountsStats\<close> is what it was, \<open>lastRun\<close>
  included; the loop stores \<^verbatim>\<open>null\<close> in the account's slot and goes on with the next
  account, after the pacing delay if there is one.
\<close>

theorem auth_failure_frame:
  assumes "i < length keys"
    and "array_get (tokenDataArray s) i = carried"
    and "carried = None \<or>
           (\<exists>td t. carried = Some td \<and> td_token_expire_time td = Some t \<and>
                   date_now env (trace s) div 1000 \<ge> t)"
    and "fst (getToken env (keys ! i) i s) = Inr None"
    and "s1 = snd (getToken env (keys ! i) i s)"
    and "s2 = snd ((if i < length keys - 1 then sleep 3000 else ret ())
                     (s1\<lparr>tokenDataArray := array_set (tokenDataArray s1) i None\<rparr>))"
  shows "processAccount env (keys ! i) i carried s = (Inr None, s1) \<and>
         accountsStats s1 = accountsStats s \<and>
         process_accounts env keys i s = process_accounts env keys (i + 1) s2 \<and>
         accountsStats s2 = accountsStats s \<and>
         array_get (tokenDataArray s2) i = None"
proof -
  have p: "processAccount env (keys ! i) i carried s = (Inr None, s1)"
    unfolding assms(5) using assms(3,4) by (rule processAccount_auth_failure)
  have f: "accountsStats s1 = accountsStats s"
    unfolding assms(5) using getToken_frame_state [of s env "keys ! i" i] by (simp add: frame_def)
  have l: "process_accounts env keys i s = process_accounts env keys (i + 1) s2"
    by (subst process_accounts.simps) (simp add: assms(1,2,6) p)
  have "accountsStats s2 = accountsStats s" "array_get (tokenDataArray s2) i = None"
    using f by (simp_all add: assms(6) sleep_def ret_def array_get_set)
  with p f l show ?thesis by simp
qed

lemma no_nonce_getToken:
  "getToken no_nonce_env ''0xkey'' 0 one_account =
     (Inr None, one_account\<lparr>trace := [GetNonce ''0xabc'']\<rparr>)"
  by (simp add: run_defs no_nonce_env_def base_env_def one_account_def)

lemma no_token_getToken:
  "getToken no_token_env ''0xkey'' 0 one_account =
     (Inr None, one_account\<lparr>trace := [GetNonce ''0xabc'', Sign ''0xkey'' (JStr ''nonce''),
                                      Login ''0xabc'' (JStr ''signature'') (JStr ''nonce'')]\<rparr>)"
  by (simp add: run_defs no_token_env_def base_env_def one_account_def)

lemma bad_key_getToken:
  "getToken bad_key_env ''0xkey'' 0 one_account =
     (Inr None, one_account\<lparr>trace := [GetNonce ''0xabc'', Sign ''0xkey'' (JStr ''nonce'')]\<rparr>)"
  by (simp add: run_defs bad_key_env_def base_env_def one_account_def)

theorem auth_failure_frame_witness:
  "(0::nat) < length [''0xkey''] \<and>
   array_get (tokenDataArray one_account) 0 = None \<and>
   processAccount no_nonce_env ''0xkey'' 0 None one_account =
     (Inr None, one_account\<lparr>trace := [GetNonce ''0xabc'']\<rparr>) \<and>
   process_accounts no_nonce_env [''0xkey''] 0 one_account =
     process_accounts no_nonce_env [''0xkey''] 1 (one_account\<lparr>trace := [GetNonce ''0xabc'']\<rparr>) \<and>
   processAccount no_token_env ''0xkey'' 0 None one_account =
     (Inr None, one_account\<lparr>trace := [GetNonce ''0xabc'', Sign ''0xkey'' (JStr ''nonce''),
                                      Login ''0xabc'' (JStr ''signature'') (JStr ''nonce'')]\<rparr>) \<and>
   processAccount bad_key_env ''0xkey'' 0 None one_account =
     (Inr None, one_account\<lparr>trace := [GetNonce ''0xabc'', Sign ''0xkey'' (JStr ''nonce'')]\<rparr>)"
  using auth_failure_frame [of 0 "[''0xkey'']" one_account None no_nonce_env, OF _ _ _ _ refl refl]
    auth_failure_frame [of 0 "[''0xkey'']" one_account None no_token_env, OF _ _ _ _ refl refl]
    auth_failure_frame [of 0 "[''0xkey'']" one_account None bad_key_env, OF _ _ _ _ refl refl]
  by (simp add: no_nonce_getToken no_token_getToken bad_key_getToken ret_def array_get_def)
     (simp add: one_account_def array_set_def)

section \<open>The counters along the run\<close>

lemma step_rel_mono: "step_rel E i s s' \<Longrightarrow> E \<subseteq> E' \<Longrightarrow> step_rel E' i s s'"
  unfolding step_rel_def by blast

lemma step_rel_trans: "step_rel E i a b \<Longrightarrow> step_rel E i b c \<Longrightarrow> step_rel E i a c"
  using step_rel_preorder [of E i] unfolding preorder_on_states_def by blast

lemma accounts_rel_trans: "accounts_rel a b \<Longrightarrow> accounts_rel b c \<Longrightarrow> accounts_rel a c"
  using accounts_rel_preorder unfolding preorder_on_states_def by blast

lemma accounts_rel_refl: "accounts_rel a a"
  using accounts_rel_preorder unfolding preorder_on_states_def by blast

lemma authenticate_frame:
  "rel_post (frame (Collect is_auth_event)) (authenticate env key idx carried)"
  unfolding authenticate_def
  by (intro rp_structure getToken_frame checkTokenValid_frame frame_preorder)

lemma processAccount_step: "rel_post (step_rel UNIV idx) (processAccount env key idx carried)"
  unfolding rel_post_def
proof
  fix s
  obtain r s1 where a: "authenticate env key idx carried s = (r, s1)"
    by (cases "authenticate env key idx carried s")
  have "frame (Collect is_auth_event) s s1" using authenticate_frame a by (rule rel_postD)
  then have 1: "step_rel UNIV idx s s1"
    by (auto intro: frame_imp_step step_rel_mono)
  have f: "step_rel UNIV idx s1 (snd (account_failed idx cur s1))" for cur
    using account_failed_step [of UNIV idx cur] by (simp add: rel_post_def)
  have t: "step_rel UNIV idx s1
             (snd (catch_eff (after_auth env td idx) (\<lambda>error. account_failed idx cur) s1))" for td cur
    using tasks_step [of idx env td cur] by (auto simp: rel_post_def intro: step_rel_mono)
  have "step_rel UNIV idx s1 (snd (processAccount env key idx carried s))"
    using a f t
    by (auto simp: processAccount_def split: sum.splits option.splits
        intro: step_rel_preorder [unfolded preorder_on_states_def, THEN conjunct1, rule_format])
  with 1 show "step_rel UNIV idx s (snd (processAccount env key idx carried s))"
    by (rule step_rel_trans)
qed

lemma pacing_rel:
  "accounts_rel s1 (snd ((if c then sleep 3000 else ret ()) (s1\<lparr>tokenDataArray := xs\<rparr>)))"
  by (simp add: accounts_rel_def sleep_def ret_def entry_step_refl)

lemma process_accounts_rel: "accounts_rel s (snd (process_accounts env keys i s))"
proof (induction env keys i s rule: process_accounts.induct)
  case (1 env keys i s)
  show ?case
  proof (cases "i < length keys")
    case False
    then show ?thesis by (subst process_accounts.simps) (simp add: accounts_rel_refl)
  next
    case True
    obtain r s1 where p: "processAccount env (keys ! i) i (array_get (tokenDataArray s) i) s = (r, s1)"
      by (cases "processAccount env (keys ! i) i (array_get (tokenDataArray s) i) s")
    have 1: "accounts_rel s s1"
      using rel_postD [OF processAccount_step p] by (rule step_imp_accounts)
    show ?thesis
    proof (cases r)
      case (Inl e)
      then show ?thesis using True p 1 by (subst process_accounts.simps) simp
    next
      case (Inr td)
      let ?s2 = "snd ((if i < length keys - 1 then sleep 3000 else ret ())
                       (s1\<lparr>tokenDataArray := array_set (tokenDataArray s1) i td\<rparr>))"
      have 2: "accounts_rel s1 ?s2" by (rule pacing_rel)
      have 3: "accounts_rel ?s2 (snd (process_accounts env keys (i + 1) ?s2))"
        using "1.IH" [OF True p [symmetric]] Inr by simp
      have "accounts_rel s (snd (process_accounts env keys (i + 1) ?s2))"
        using 1 2 3 by (blast intro: accounts_rel_trans)
      then show ?thesis using True p Inr by (subst process_accounts.simps) simp
    qed
  qed
qed

lemma main_iteration_rel: "accounts_rel s (snd (main_iteration env keys w s))"
proof -
  let ?s0 = "s\<lparr>cycleCount := cycleCount s + 1\<rparr>"
  obtain r s1 where p: "process_accounts env keys 0 ?s0 = (r, s1)"
    by (cases "process_accounts env keys 0 ?s0")
  have "accounts_rel s ?s0" by (simp add: accounts_rel_def entry_step_refl)
  moreover have "accounts_rel ?s0 s1" using process_accounts_rel [of ?s0 env keys 0] p by simp
  ultimately have 1: "accounts_rel s s1" by (rule accounts_rel_trans)
  have 2: "accounts_rel s1 (s1\<lparr>trace := trace s1 @ [e]\<rparr>)" for e
    by (simp add: accounts_rel_def entry_step_refl)
  have "accounts_rel s1 (snd (main_iteration env keys w s))"
    using p 2
    by (auto simp: main_iteration_def catch_eff_def bind_eff_def summary_def countdownTimer_def
        sleep_def accounts_rel_refl split: sum.splits option.splits)
  with 1 show ?thesis by (rule accounts_rel_trans)
qed

lemma main_loop_rel: "accounts_rel s (main_loop env keys w n s)"
proof (induction n)
  case 0
  show ?case by (simp add: accounts_rel_refl)
next
  case (Suc n)
  have "accounts_rel (main_loop env keys w n s)
          (snd (main_iteration env keys w (main_loop env keys w n s)))"
    by (rule main_iteration_rel)
  with Suc show ?case by (simp add: accounts_rel_trans)
qed

lemma setup_fold:
  "foldl (\<lambda>m index. m(index \<mapsto> v)) m0 [0..<n] j = (if j < n then Some v else m0 j)"
  by (induction n) auto

lemma main_setup_stats:
  "i < length keys \<Longrightarrow>
   accountsStats (main_setup env keys s) i = Some (new_stats (date_now env (trace s)))"
  by (simp add: main_setup_def setup_fold)

lemma counts_step_bounded: "counts_step st st' \<Longrightarrow> counters_bounded st \<Longrightarrow> counters_bounded st'"
  by (auto simp: counts_step_def counters_bounded_def)

lemma counts_step_exact: "counts_step st st' \<Longrightarrow> counters_exact st \<Longrightarrow> counters_exact st'"
  by (auto simp: counts_step_def counters_exact_def)

lemma main_counters:
  assumes "i < length keys"
  shows "\<exists>st. accountsStats (main env keys w n) i = Some st \<and>
              counts_step (new_stats (date_now env [])) st"
proof -
  let ?s0 = "main_setup env keys initial_state"
  have k: "keys \<noteq> []" using assms by auto
  have "accountsStats ?s0 i = Some (new_stats (date_now env []))"
    using main_setup_stats [OF assms, of env initial_state] by (simp add: initial_state_def)
  moreover have "accounts_rel ?s0 (main_loop env keys w n ?s0)" by (rule main_loop_rel)
  ultimately show ?thesis using k
    by (auto simp: main_def accounts_rel_def entry_step_def dest!: spec [of _ i])
qed

section \<open>What a counted transaction stands for\<close>

lemma retry_loop_success:
  assumes "fn = call ev reply" "retry_loop fn n d i s = (Inr (Some v), s')"
  shows "\<exists>pre. trace s' = trace s @ pre @ [ev] \<and> reply (trace s') = Inr v"
  using assms
proof (induction fn n d i s rule: retry_loop.induct)
  case (1 fn retries delay i s)
  have lt: "i < retries"
    using "1.prems"(2) by (subst (asm) retry_loop.simps) (auto split: if_splits)
  let ?s0 = "s\<lparr>trace := trace s @ [ev]\<rparr>"
  have c: "fn s = (reply (trace s @ [ev]), ?s0)" using "1.prems"(1) by (simp add: call_def)
  show ?case
  proof (cases "reply (trace s @ [ev])")
    case (Inr x)
    then have "retry_loop fn retries delay i s = (Inr (Some x), ?s0)"
      using lt c by (subst retry_loop.simps) simp
    with "1.prems"(2) Inr show ?thesis by auto
  next
    case (Inl e)
    have ne: "i \<noteq> retries - 1"
      using "1.prems"(2) lt c Inl by (subst (asm) retry_loop.simps) (auto split: if_splits)
    let ?s1 = "snd (sleep (delay * 2 ^ i) ?s0)"
    have r: "retry_loop fn retries delay (i + 1) ?s1 = (Inr (Some v), s')"
      using "1.prems"(2) lt c Inl ne by (subst (asm) retry_loop.simps) simp
    from "1.IH" [OF lt c [symmetric] Inl ne "1.prems"(1) r]
    obtain pre where "trace s' = trace ?s1 @ pre @ [ev]" "reply (trace s') = Inr v" by blast
    then have "trace s' = trace s @ ([ev, Sleep (delay * 2 ^ i)] @ pre) @ [ev] \<and>
               reply (trace s') = Inr v"
      by (simp add: sleep_def)
    then show ?thesis by blast
  qed
qed

lemma retry_call_success:
  assumes "retryWithBackoff (call ev reply) n d s = (Inr (Some v), s')"
  shows "answered reply ev v s s'"
proof -
  from retry_loop_success [OF refl assms [unfolded retryWithBackoff_def]]
  obtain pre where "trace s' = trace s @ pre @ [ev]" "reply (trace s') = Inr v" by blast
  then have "trace s' = trace s @ pre @ [ev] @ [] \<and> reply (trace s @ pre @ [ev]) = Inr v"
    by simp
  then show ?thesis unfolding answered_def by blast
qed

lemma retry_call_stats:
  assumes "retryWithBackoff (call ev reply) n d s = (r, s')"
  shows "accountsStats s' = accountsStats s" "prefix (trace s) (trace s')"
  using rel_postD [OF retry_call_frame assms] by (auto simp: frame_def)

lemma answered_extend:
  "answered reply ev v a b \<Longrightarrow> prefix (trace s) (trace a) \<Longrightarrow> prefix (trace b) (trace s') \<Longrightarrow>
   answered reply ev v s s'"
  unfolding answered_def prefix_def
  by (elim exE conjE) (metis append.assoc)

lemma createAgent_outcome:
  assumes st: "accountsStats s idx = Some st"
  shows "\<exists>r s'. createAgent env tok idx s = (r, s') \<and>
     ((r = Inr False \<and> accountsStats s' = accountsStats s) \<or>
      (r = Inr False \<and> accountsStats s' = (accountsStats s)(idx \<mapsto> inc_errors st)) \<or>
      (r = Inr True \<and> accountsStats s' = (accountsStats s)(idx \<mapsto> inc_txs (inc_agents st)) \<and>
       (\<exists>name desc agentID h.
           answered (createNewAgent_reply env) (CreateNewAgent tok name desc) (Data agentID) s s' \<and>
           truthy agentID \<and>
           answered (contractCall_reply env) (ContractCall ''addNewAgent'' [agentID, name, desc])
             (Some h) s s' \<and>
           truthy h)))"
proof -
  let ?G = "GenerateAIResponse ''create agent'' ''createAgent''"
  let ?s0 = "s\<lparr>trace := trace s @ [?G]\<rparr>"
  note defs = createAgent_def generateAIResponse_def call_def bind_eff_def catch_eff_def
    lift_result_def ret_def Let_def update_stats_def
  show ?thesis
  proof (cases "generateAIResponse_reply env (trace s @ [?G])")
    case (Inl e)
    then show ?thesis using st by (simp add: defs)
  next
    case gen: (Inr generated)
    show ?thesis
    proof (cases "JSON_parse env generated")
      case (Inl e)
      then show ?thesis using st gen by (simp add: defs)
    next
      case parse: (Inr parsed)
      define c where "c = (case parsed of None \<Rightarrow> default_agent | Some a \<Rightarrow> a)"
      show ?thesis
      proof (cases "truthy (name_agent c) \<and> truthy (description c)")
        case False
        then show ?thesis using st gen parse unfolding c_def by (auto simp: defs)
      next
        case valid: True
        obtain r1 s1 where f1: "retryWithBackoff
            (createNewAgent env tok (name_agent c) (description c)) MAX_RETRIES RETRY_DELAY ?s0
              = (r1, s1)"
          by (cases "retryWithBackoff
            (createNewAgent env tok (name_agent c) (description c)) MAX_RETRIES RETRY_DELAY ?s0")
        have k1: "accountsStats s1 = accountsStats s" "prefix (trace s) (trace s1)"
          using retry_call_stats [OF f1 [unfolded createNewAgent_def]]
          by (auto simp: prefix_def)
        have st1: "accountsStats s1 idx = Some st" using k1 st by simp
        show ?thesis
        proof (cases r1)
          case (Inl e)
          then show ?thesis using st1 k1 gen parse valid f1 unfolding c_def by (simp add: defs)
        next
          case r1: (Inr resp)
          show ?thesis
          proof (cases "response_data resp")
            case None
            then show ?thesis using k1 gen parse valid f1 r1 unfolding c_def by (simp add: defs)
          next
            case (Some agentID)
            then have resp: "resp = Some (Data agentID)"
              by (cases resp rule: response_data.cases) simp_all
            have a1: "answered (createNewAgent_reply env)
                        (CreateNewAgent tok (name_agent c) (description c)) (Data agentID) ?s0 s1"
              using f1 r1 resp unfolding createNewAgent_def by (auto intro: retry_call_success)
            show ?thesis
            proof (cases "truthy agentID")
              case False
              then show ?thesis using k1 gen parse valid f1 r1 resp unfolding c_def
                by (simp add: defs)
            next
              case tid: True
              let ?C = "contractCall env ''addNewAgent'' [agentID, name_agent c, description c]"
              obtain r2 s2 where f2: "retryWithBackoff ?C MAX_RETRIES RETRY_DELAY s1 = (r2, s2)"
                by (cases "retryWithBackoff ?C MAX_RETRIES RETRY_DELAY s1")
              have k2: "accountsStats s2 = accountsStats s" "prefix (trace s1) (trace s2)"
                using retry_call_stats [OF f2 [unfolded contractCall_def]] k1 by auto
              have st2: "accountsStats s2 idx = Some st" using k2 st by simp
              show ?thesis
              proof (cases r2)
                case (Inl e)
                then show ?thesis using st2 k2 gen parse valid f1 r1 resp tid f2 unfolding c_def
                  by (simp add: defs)
              next
                case r2: (Inr tx)
                show ?thesis
                proof (cases "tx_hash_ok tx")
                  case False
                  then show ?thesis using k2 gen parse valid f1 r1 resp tid f2 r2 unfolding c_def
                    by (simp add: defs)
                next
                  case True
                  then obtain h where tx: "tx = Some (Some h)" "truthy h"
                    by (cases tx rule: tx_hash_ok.cases) simp_all
                  let ?s' = "s2\<lparr>accountsStats := (accountsStats s)(idx \<mapsto> inc_txs (inc_agents st))\<rparr>"
                  have run: "createAgent env tok idx s = (Inr True, ?s')"
                    using st2 k2 gen parse valid f1 r1 resp tid f2 r2 tx unfolding c_def
                    by (simp add: defs)
                  have a2: "answered (contractCall_reply env)
                        (ContractCall ''addNewAgent'' [agentID, name_agent c, description c])
                        (Some h) s1 s2"
                    using f2 r2 tx unfolding contractCall_def by (auto intro: retry_call_success)
                  have b1: "answered (createNewAgent_reply env)
                        (CreateNewAgent tok (name_agent c) (description c)) (Data agentID) s ?s'"
                    by (rule answered_extend [OF a1]) (simp_all add: k2(2))
                  have b2: "answered (contractCall_reply env)
                        (ContractCall ''addNewAgent'' [agentID, name_agent c, description c])
                        (Some h) s ?s'"
                    by (rule answered_extend [OF a2]) (simp_all add: k1(2))
                  show ?thesis using run b1 b2 tid tx(2) by auto
                qed
              qed
            qed
          qed
        qed
      qed
    qed
  qed
qed

lemma createRequest_outcome:
  assumes st: "accountsStats s idx = Some st"
  shows "\<exists>r s'. createRequest env tok idx s = (r, s') \<and>
     ((r = Inr False \<and> accountsStats s' = accountsStats s) \<or>
      (r = Inr False \<and> accountsStats s' = (accountsStats s)(idx \<mapsto> inc_errors st)) \<or>
      (r = Inr True \<and> accountsStats s' = (accountsStats s)(idx \<mapsto> inc_txs (inc_requests st)) \<and>
       (\<exists>name desc requestID h.
           answered (createNewRequest_reply env) (CreateNewRequest tok name desc) (Data requestID) s s' \<and>
           truthy requestID \<and>
           answered (contractCall_reply env) (ContractCall ''addNewRequest'' [requestID, name])
             (Some h) s s' \<and>
           truthy h)))"
proof -
  let ?G = "GenerateAIResponse ''create request'' ''createRequest''"
  let ?s0 = "s\<lparr>trace := trace s @ [?G]\<rparr>"
  note defs = createRequest_def generateAIResponse_def call_def bind_eff_def catch_eff_def
    lift_result_def ret_def Let_def update_stats_def
  show ?thesis
  proof (cases "generateAIResponse_reply env (trace s @ [?G])")
    case (Inl e)
    then show ?thesis using st by (simp add: defs)
  next
    case gen: (Inr generated)
    show ?thesis
    proof (cases "JSON_parse env generated")
      case (Inl e)
      then show ?thesis using st gen by (simp add: defs)
    next
      case parse: (Inr parsed)
      define c where "c = (case parsed of None \<Rightarrow> default_request | Some a \<Rightarrow> a)"
      show ?thesis
      proof (cases "truthy (title c) \<and> truthy (description c)")
        case False
        then show ?thesis using st gen parse unfolding c_def by (auto simp: defs)
      next
        case valid: True
        obtain r1 s1 where f1: "retryWithBackoff
            (createNewRequest env tok (title c) (description c)) MAX_RETRIES RETRY_DELAY ?s0
              = (r1, s1)"
          by (cases "retryWithBackoff
            (createNewRequest env tok (title c) (description c)) MAX_RETRIES RETRY_DELAY ?s0")
        have k1: "accountsStats s1 = accountsStats s" "prefix (trace s) (trace s1)"
          using retry_call_stats [OF f1 [unfolded createNewRequest_def]]
          by (auto simp: prefix_def)
        have st1: "accountsStats s1 idx = Some st" using k1 st by simp
        show ?thesis
        proof (cases r1)
          case (Inl e)
          then show ?thesis using st1 k1 gen parse valid f1 unfolding c_def by (simp add: defs)
        next
          case r1: (Inr resp)
          show ?thesis
          proof (cases "response_data resp")
            case None
            then show ?thesis using k1 gen parse valid f1 r1 unfolding c_def by (simp add: defs)
          next
            case (Some requestID)
            then have resp: "resp = Some (Data requestID)"
              by (cases resp rule: response_data.cases) simp_all
            have a1: "answered (createNewRequest_reply env)
                        (CreateNewRequest tok (title c) (description c)) (Data requestID) ?s0 s1"
              using f1 r1 resp unfolding createNewRequest_def by (auto intro: retry_call_success)
            show ?thesis
            proof (cases "truthy requestID")
              case False
              then show ?thesis using k1 gen parse valid f1 r1 resp unfolding c_def
                by (simp add: defs)
            next
              case tid: True
              let ?C = "contractCall env ''addNewRequest'' [requestID, title c]"
              obtain r2 s2 where f2: "retryWithBackoff ?C MAX_RETRIES RETRY_DELAY s1 = (r2, s2)"
                by (cases "retryWithBackoff ?C MAX_RETRIES RETRY_DELAY s1")
              have k2: "accountsStats s2 = accountsStats s" "prefix (trace s1) (trace s2)"
                using retry_call_stats [OF f2 [unfolded contractCall_def]] k1 by auto
              have st2: "accountsStats s2 idx = Some st" using k2 st by simp
              show ?thesis
              proof (cases r2)
                case (Inl e)
                then show ?thesis using st2 k2 gen parse valid f1 r1 resp tid f2 unfolding c_def
                  by (simp add: defs)
              next
                case r2: (Inr tx)
                show ?thesis
                proof (cases "tx_hash_ok tx")
                  case False
                  then show ?thesis using k2 gen parse valid f1 r1 resp tid f2 r2 unfolding c_def
                    by (simp add: defs)
                next
                  case True
                  then obtain h where tx: "tx = Some (Some h)" "truthy h"
                    by (cases tx rule: tx_hash_ok.cases) simp_all
                  let ?s' = "s2\<lparr>accountsStats := (accountsStats s)(idx \<mapsto> inc_txs (inc_requests st))\<rparr>"
                  have run: "createRequest env tok idx s = (Inr True, ?s')"
                    using st2 k2 gen parse valid f1 r1 resp tid f2 r2 tx unfolding c_def
                    by (simp add: defs)
                  have a2: "answered (contractCall_reply env)
                        (ContractCall ''addNewRequest'' [requestID, title c])
                        (Some h) s1 s2"
                    using f2 r2 tx unfolding contractCall_def by (auto intro: retry_call_success)
                  have b1: "answered (createNewRequest_reply env)
                        (CreateNewRequest tok (title c) (description c)) (Data requestID) s ?s'"
                    by (rule answered_extend [OF a1]) (simp_all add: k2(2))
                  have b2: "answered (contractCall_reply env)
                        (ContractCall ''addNewRequest'' [requestID, title c])
                        (Some h) s ?s'"
                    by (rule answered_extend [OF a2]) (simp_all add: k1(2))
                  show ?thesis using run b1 b2 tid tx(2) by auto
                qed
              qed
            qed
          qed
        qed
      qed
    qed
  qed
qed

section \<open>Registrations in the history\<close>

lemma history_count_snoc:
  "history_count Q (tr @ [e]) = history_count Q tr + (if Q (tr @ [e]) then 1 else 0)"
  by (simp add: history_count_def)

lemma history_count_append_none:
  assumes "\<And>p e. e \<in> set evs \<Longrightarrow> \<not> Q (p @ [e])"
  shows "history_count Q (tr @ evs) = history_count Q tr"
  using assms
proof (induction evs rule: rev_induct)
  case Nil
  show ?case by simp
next
  case (snoc x xs)
  have "history_count Q ((tr @ xs) @ [x]) = history_count Q (tr @ xs)"
    using snoc.prems [of x "tr @ xs"] by (simp only: history_count_snoc) simp
  moreover have "history_count Q (tr @ xs) = history_count Q tr"
    using snoc.prems by (intro snoc.IH) simp
  ultimately show ?case by simp
qed

lemma before_attempts_strip:
  assumes "set evs \<subseteq> insert ev (range Sleep)" "c \<noteq> ev" "\<not> is_sleep c"
  shows "before_attempts ev (p @ [c] @ evs @ [ev]) = p @ [c]"
proof -
  have a: "\<forall>e \<in> set (ev # rev evs). e = ev \<or> is_sleep e" using assms(1) by auto
  have "dropWhile (\<lambda>e. e = ev \<or> is_sleep e) ((ev # rev evs) @ c # rev p) = c # rev p"
    using a assms(2,3) by (subst dropWhile_append2) auto
  then show ?thesis by (simp add: before_attempts_def)
qed

lemma retry_loop_history_count:
  assumes "fn = call ev reply"
    and "\<And>p ms. \<not> Q (p @ [Sleep ms])"
    and "\<And>evs. set evs \<subseteq> insert ev (range Sleep) \<Longrightarrow>
           Q (tr0 @ evs @ [ev]) = (B \<and> okp (reply (tr0 @ evs @ [ev])))"
    and "\<And>e. \<not> okp (Inl e)"
    and "trace s = tr0 @ evs0" and "set evs0 \<subseteq> insert ev (range Sleep)"
    and "retry_loop fn n d i s = (r, s')"
  shows "history_count Q (trace s') =
           history_count Q (trace s) + (if B \<and> (\<exists>v. r = Inr (Some v) \<and> okp (Inr v)) then 1 else 0)"
  using assms(1,5,6,7)
proof (induction fn n d i s arbitrary: evs0 rule: retry_loop.induct)
  case (1 fn retries delay i s)
  show ?case
  proof (cases "i < retries")
    case False
    then have "r = Inr None" "s' = s"
      using "1.prems"(4) by (subst (asm) retry_loop.simps, simp)+
    then show ?thesis by simp
  next
    case lt: True
    let ?s0 = "s\<lparr>trace := trace s @ [ev]\<rparr>"
    have c: "fn s = (reply (trace s @ [ev]), ?s0)" using "1.prems"(1) by (simp add: call_def)
    have q: "Q (trace s @ [ev]) = (B \<and> okp (reply (trace s @ [ev])))"
      using assms(3) [OF "1.prems"(3)] "1.prems"(2) by simp
    have h0: "history_count Q (trace ?s0) =
                history_count Q (trace s) + (if B \<and> okp (reply (trace s @ [ev])) then 1 else 0)"
      by (simp add: history_count_snoc q)
    show ?thesis
    proof (cases "reply (trace s @ [ev])")
      case (Inr x)
      then have "retry_loop fn retries delay i s = (Inr (Some x), ?s0)"
        using lt c by (subst retry_loop.simps) simp
      with "1.prems"(4) have "r = Inr (Some x)" "s' = ?s0" by simp_all
      then show ?thesis using h0 Inr by simp
    next
      case (Inl e)
      have h0': "history_count Q (trace ?s0) = history_count Q (trace s)"
        using h0 Inl assms(4) by simp
      show ?thesis
      proof (cases "i = retries - 1")
        case True
        then have "retry_loop fn retries delay i s = (Inl e, ?s0)"
          using lt c Inl by (subst retry_loop.simps) simp
        with "1.prems"(4) have "r = Inl e" "s' = ?s0" by simp_all
        then show ?thesis using h0' by simp
      next
        case False
        let ?s1 = "snd (sleep (delay * 2 ^ i) ?s0)"
        have r: "retry_loop fn retries delay (i + 1) ?s1 = (r, s')"
          using "1.prems"(4) lt c Inl False by (subst (asm) retry_loop.simps) simp
        have t1: "trace ?s1 = tr0 @ (evs0 @ [ev, Sleep (delay * 2 ^ i)])"
          using "1.prems"(2) by (simp add: sleep_def)
        have e1: "set (evs0 @ [ev, Sleep (delay * 2 ^ i)]) \<subseteq> insert ev (range Sleep)"
          using "1.prems"(3) by auto
        have "history_count Q ((trace s @ [ev]) @ [Sleep (delay * 2 ^ i)]) =
                history_count Q (trace s @ [ev])"
          using assms(2) [of "trace s @ [ev]" "delay * 2 ^ i"]
          by (simp only: history_count_snoc) simp
        then have h1: "history_count Q (trace ?s1) = history_count Q (trace s)"
          using h0' by (simp add: sleep_def)
        from "1.IH" [OF lt c [symmetric] Inl False "1.prems"(1) t1 e1 r] h1
        show ?thesis by simp
      qed
    qed
  qed
qed


lemma not_agent_registered:
  "(\<And>args. e \<noteq> ContractCall ''addNewAgent'' args) \<Longrightarrow> \<not> agent_registered env (p @ [e])"
  by (cases e) (auto simp: agent_registered_def)

lemma not_request_registered:
  "(\<And>args. e \<noteq> ContractCall ''addNewRequest'' args) \<Longrightarrow> \<not> request_registered env (p @ [e])"
  by (cases e) (auto simp: request_registered_def)

lemma tx_hash_ok_iff: "tx_hash_ok tx = (\<exists>v. tx = Some v \<and> hash_ok (Inr v))"
  by (cases tx rule: tx_hash_ok.cases) (simp_all add: hash_ok_def)

lemma frame_history_count:
  assumes "frame E s s'" "\<And>p e. e \<in> E \<Longrightarrow> \<not> Q (p @ [e])"
  shows "history_count Q (trace s') = history_count Q (trace s)"
proof -
  from assms(1) obtain evs where e: "trace s' = trace s @ evs" "set evs \<subseteq> E"
    by (auto simp: frame_def)
  show ?thesis unfolding e(1) using e(2) assms(2) by (intro history_count_append_none) auto
qed

lemma step_history_count:
  assumes "step_rel E i s s'" "\<And>p e. e \<in> E \<Longrightarrow> \<not> Q (p @ [e])"
  shows "history_count Q (trace s') = history_count Q (trace s)"
proof -
  from assms(1) obtain evs where e: "trace s' = trace s @ evs" "set evs \<subseteq> E"
    by (auto simp: step_rel_def)
  show ?thesis unfolding e(1) using e(2) assms(2) by (intro history_count_append_none) auto
qed

lemma agent_registration_attempt:
  assumes "trace s1 = pre @ [CreateNewAgent tok name desc]"
    and "createNewAgent_reply env (trace s1) = Inr (Data agentID)"
    and "truthy agentID"
    and "set evs \<subseteq> insert (ContractCall ''addNewAgent'' [agentID, name, desc]) (range Sleep)"
  shows "agent_registered env (trace s1 @ evs @ [ContractCall ''addNewAgent'' [agentID, name, desc]]) =
           (True \<and> hash_ok (contractCall_reply env
              (trace s1 @ evs @ [ContractCall ''addNewAgent'' [agentID, name, desc]])))"
proof -
  let ?ev = "ContractCall ''addNewAgent'' [agentID, name, desc]"
  have "before_attempts ?ev (pre @ [CreateNewAgent tok name desc] @ evs @ [?ev]) =
          pre @ [CreateNewAgent tok name desc]"
    using assms(4) by (intro before_attempts_strip) simp_all
  then have b: "before_attempts ?ev (trace s1 @ evs @ [?ev]) = trace s1"
    by (simp add: assms(1))
  have "agent_answered env agentID name desc (trace s1)"
    using assms(2) by (simp add: agent_answered_def assms(1) [symmetric]) (simp add: assms(1))
  then show ?thesis
    using b assms(3) by (simp add: agent_registered_def)
qed

lemma createAgent_registered:
  assumes st: "accountsStats s idx = Some st"
    and run: "createAgent env tok idx s = (r, s')"
  shows "history_count (agent_registered env) (trace s') =
           history_count (agent_registered env) (trace s) + (if r = Inr True then 1 else 0)"
proof -
  let ?Q = "agent_registered env"
  let ?G = "GenerateAIResponse ''create agent'' ''createAgent''"
  let ?s0 = "s\<lparr>trace := trace s @ [?G]\<rparr>"
  note defs = createAgent_def generateAIResponse_def call_def bind_eff_def catch_eff_def
    lift_result_def ret_def Let_def update_stats_def
  have c0: "history_count ?Q (trace s @ [?G]) = history_count ?Q (trace s)"
    by (simp add: history_count_snoc not_agent_registered)
  show ?thesis
  proof (cases "generateAIResponse_reply env (trace s @ [?G])")
    case (Inl e)
    then show ?thesis using st run c0 by (auto simp: defs)
  next
    case gen: (Inr generated)
    show ?thesis
    proof (cases "JSON_parse env generated")
      case (Inl e)
      then show ?thesis using st gen run c0 by (auto simp: defs)
    next
      case parse: (Inr parsed)
      define c where "c = (case parsed of None \<Rightarrow> default_agent | Some a \<Rightarrow> a)"
      show ?thesis
      proof (cases "truthy (name_agent c) \<and> truthy (description c)")
        case False
        then show ?thesis using st gen parse run c0 unfolding c_def by (auto simp: defs)
      next
        case valid: True
        let ?A = "CreateNewAgent tok (name_agent c) (description c)"
        obtain r1 s1 where f1: "retryWithBackoff
            (createNewAgent env tok (name_agent c) (description c)) MAX_RETRIES RETRY_DELAY ?s0
              = (r1, s1)"
          by (cases "retryWithBackoff
            (createNewAgent env tok (name_agent c) (description c)) MAX_RETRIES RETRY_DELAY ?s0")
        have fr1: "frame (insert ?A (range Sleep)) ?s0 s1"
          using retry_call_frame f1 [unfolded createNewAgent_def] by (rule rel_postD)
        have k1: "accountsStats s1 = accountsStats s" using fr1 by (simp add: frame_def)
        have "history_count ?Q (trace s1) = history_count ?Q (trace ?s0)"
          using fr1 by (rule frame_history_count) (auto simp: not_agent_registered)
        then have c1: "history_count ?Q (trace s1) = history_count ?Q (trace s)"
          using c0 by simp
        have st1: "accountsStats s1 idx = Some st" using k1 st by simp
        show ?thesis
        proof (cases r1)
          case (Inl e)
          then show ?thesis using st1 k1 gen parse valid f1 run c1 unfolding c_def
            by (auto simp: defs)
        next
          case r1: (Inr resp)
          show ?thesis
          proof (cases "response_data resp")
            case None
            then show ?thesis using k1 gen parse valid f1 r1 run c1 unfolding c_def
              by (auto simp: defs)
          next
            case (Some agentID)
            then have resp: "resp = Some (Data agentID)"
              by (cases resp rule: response_data.cases) simp_all
            show ?thesis
            proof (cases "truthy agentID")
              case False
              then show ?thesis using k1 gen parse valid f1 r1 resp run c1 unfolding c_def
                by (auto simp: defs)
            next
              case tid: True
              let ?ev = "ContractCall ''addNewAgent'' [agentID, name_agent c, description c]"
              let ?C = "contractCall env ''addNewAgent'' [agentID, name_agent c, description c]"
              obtain r2 s2 where f2: "retryWithBackoff ?C MAX_RETRIES RETRY_DELAY s1 = (r2, s2)"
                by (cases "retryWithBackoff ?C MAX_RETRIES RETRY_DELAY s1")
              have k2: "accountsStats s2 = accountsStats s"
                using rel_postD [OF retry_call_frame f2 [unfolded contractCall_def]] k1
                by (simp add: frame_def)
              have st2: "accountsStats s2 idx = Some st" using k2 st by simp
              from retry_loop_success [OF refl
                  f1 [unfolded createNewAgent_def retryWithBackoff_def r1 resp]]
              obtain pre where t1: "trace s1 = trace ?s0 @ pre @ [?A]"
                and a1: "createNewAgent_reply env (trace s1) = Inr (Data agentID)" by blast
              have t1': "trace s1 = (trace ?s0 @ pre) @ [?A]" using t1 by simp
              have c2: "history_count ?Q (trace s2) =
                          history_count ?Q (trace s1) +
                          (if True \<and> (\<exists>v. r2 = Inr (Some v) \<and> hash_ok (Inr v)) then 1 else 0)"
              proof (rule retry_loop_history_count [OF refl _ _ _ _ _
                    f2 [unfolded contractCall_def retryWithBackoff_def], where ?tr0.0 = "trace s1"
                    and ?evs0.0 = "[]"])
                show "\<not> ?Q (p @ [Sleep ms])" for p ms by (simp add: not_agent_registered)
                show "?Q (trace s1 @ evs @ [?ev]) =
                        (True \<and> hash_ok (contractCall_reply env (trace s1 @ evs @ [?ev])))"
                  if "set evs \<subseteq> insert ?ev (range Sleep)" for evs
                  using t1' a1 tid that by (rule agent_registration_attempt)
                show "\<not> hash_ok (Inl e)" for e by (simp add: hash_ok_def)
              qed simp_all
              show ?thesis
              proof (cases r2)
                case (Inl e)
                then show ?thesis using st2 k2 gen parse valid f1 r1 resp tid f2 run c1 c2
                  unfolding c_def by (auto simp: defs)
              next
                case r2: (Inr tx)
                have c3: "history_count ?Q (trace s2) =
                            history_count ?Q (trace s) + (if tx_hash_ok tx then 1 else 0)"
                  using c1 c2 r2 by (simp add: tx_hash_ok_iff)
                show ?thesis
                proof (cases "tx_hash_ok tx")
                  case False
                  then show ?thesis using k2 gen parse valid f1 r1 resp tid f2 r2 run c3
                    unfolding c_def by (auto simp: defs)
                next
                  case True
                  then show ?thesis using st2 k2 gen parse valid f1 r1 resp tid f2 r2 run c3
                    unfolding c_def by (auto simp: defs)
                qed
              qed
            qed
          qed
        qed
      qed
    qed
  qed
qed

lemma request_registration_attempt:
  assumes "trace s1 = pre @ [CreateNewRequest tok ttl desc]"
    and "createNewRequest_reply env (trace s1) = Inr (Data requestID)"
    and "truthy requestID"
    and "set evs \<subseteq> insert (ContractCall ''addNewRequest'' [requestID, ttl]) (range Sleep)"
  shows "request_registered env (trace s1 @ evs @ [ContractCall ''addNewRequest'' [requestID, ttl]]) =
           (True \<and> hash_ok (contractCall_reply env
              (trace s1 @ evs @ [ContractCall ''addNewRequest'' [requestID, ttl]])))"
proof -
  let ?ev = "ContractCall ''addNewRequest'' [requestID, ttl]"
  have "before_attempts ?ev (pre @ [CreateNewRequest tok ttl desc] @ evs @ [?ev]) =
          pre @ [CreateNewRequest tok ttl desc]"
    using assms(4) by (intro before_attempts_strip) simp_all
  then have b: "before_attempts ?ev (trace s1 @ evs @ [?ev]) = trace s1"
    by (simp add: assms(1))
  have "request_answered env requestID ttl (trace s1)"
    using assms(2) by (simp add: request_answered_def assms(1) [symmetric]) (simp add: assms(1))
  then show ?thesis
    using b assms(3) by (simp add: request_registered_def)
qed

lemma createRequest_registered:
  assumes st: "accountsStats s idx = Some st"
    and run: "createRequest env tok idx s = (r, s')"
  shows "history_count (request_registered env) (trace s') =
           history_count (request_registered env) (trace s) + (if r = Inr True then 1 else 0)"
proof -
  let ?Q = "request_registered env"
  let ?G = "GenerateAIResponse ''create request'' ''createRequest''"
  let ?s0 = "s\<lparr>trace := trace s @ [?G]\<rparr>"
  note defs = createRequest_def generateAIResponse_def call_def bind_eff_def catch_eff_def
    lift_result_def ret_def Let_def update_stats_def
  have c0: "history_count ?Q (trace s @ [?G]) = history_count ?Q (trace s)"
    by (simp add: history_count_snoc not_request_registered)
  show ?thesis
  proof (cases "generateAIResponse_reply env (trace s @ [?G])")
    case (Inl e)
    then show ?thesis using st run c0 by (auto simp: defs)
  next
    case gen: (Inr generated)
    show ?thesis
    proof (cases "JSON_parse env generated")
      case (Inl e)
      then show ?thesis using st gen run c0 by (auto simp: defs)
    next
      case parse: (Inr parsed)
      define c where "c = (case parsed of None \<Rightarrow> default_request | Some a \<Rightarrow> a)"
      show ?thesis
      proof (cases "truthy (title c) \<and> truthy (description c)")
        case False
        then show ?thesis using st gen parse run c0 unfolding c_def by (auto simp: defs)
      next
        case valid: True
        let ?A = "CreateNewRequest tok (title c) (description c)"
        obtain r1 s1 where f1: "retryWithBackoff
            (createNewRequest env tok (title c) (description c)) MAX_RETRIES RETRY_DELAY ?s0
              = (r1, s1)"
          by (cases "retryWithBackoff
            (createNewRequest env tok (title c) (description c)) MAX_RETRIES RETRY_DELAY ?s0")
        have fr1: "frame (insert ?A (range Sleep)) ?s0 s1"
          using retry_call_frame f1 [unfolded createNewRequest_def] by (rule rel_postD)
        have k1: "accountsStats s1 = accountsStats s" using fr1 by (simp add: frame_def)
        have "history_count ?Q (trace s1) = history_count ?Q (trace ?s0)"
          using fr1 by (rule frame_history_count) (auto simp: not_request_registered)
        then have c1: "history_count ?Q (trace s1) = history_count ?Q (trace s)"
          using c0 by simp
        have st1: "accountsStats s1 idx = Some st" using k1 st by simp
        show ?thesis
        proof (cases r1)
          case (Inl e)
          then show ?thesis using st1 k1 gen parse valid f1 run c1 unfolding c_def
            by (auto simp: defs)
        next
          case r1: (Inr resp)
          show ?thesis
          proof (cases "response_data resp")
            case None
            then show ?thesis using k1 gen parse valid f1 r1 run c1 unfolding c_def
              by (auto simp: defs)
          next
            case (Some requestID)
            then have resp: "resp = Some (Data requestID)"
              by (cases resp rule: response_data.cases) simp_all
            show ?thesis
            proof (cases "truthy requestID")
              case False
              then show ?thesis using k1 gen parse valid f1 r1 resp run c1 unfolding c_def
                by (auto simp: defs)
            next
              case tid: True
              let ?ev = "ContractCall ''addNewRequest'' [requestID, title c]"
              let ?C = "contractCall env ''addNewRequest'' [requestID, title c]"
              obtain r2 s2 where f2: "retryWithBackoff ?C MAX_RETRIES RETRY_DELAY s1 = (r2, s2)"
                by (cases "retryWithBackoff ?C MAX_RETRIES RETRY_DELAY s1")
              have k2: "accountsStats s2 = accountsStats s"
                using rel_postD [OF retry_call_frame f2 [unfolded contractCall_def]] k1
                by (simp add: frame_def)
              have st2: "accountsStats s2 idx = Some st" using k2 st by simp
              from retry_loop_success [OF refl
                  f1 [unfolded createNewRequest_def retryWithBackoff_def r1 resp]]
              obtain pre where t1: "trace s1 = trace ?s0 @ pre @ [?A]"
                and a1: "createNewRequest_reply env (trace s1) = Inr (Data requestID)" by blast
              have t1': "trace s1 = (trace ?s0 @ pre) @ [?A]" using t1 by simp
              have c2: "history_count ?Q (trace s2) =
                          history_count ?Q (trace s1) +
                          (if True \<and> (\<exists>v. r2 = Inr (Some v) \<and> hash_ok (Inr v)) then 1 else 0)"
              proof (rule retry_loop_history_count [OF refl _ _ _ _ _
                    f2 [unfolded contractCall_def retryWithBackoff_def], where ?tr0.0 = "trace s1"
                    and ?evs0.0 = "[]"])
                show "\<not> ?Q (p @ [Sleep ms])" for p ms by (simp add: not_request_registered)
                show "?Q (trace s1 @ evs @ [?ev]) =
                        (True \<and> hash_ok (contractCall_reply env (trace s1 @ evs @ [?ev])))"
                  if "set evs \<subseteq> insert ?ev (range Sleep)" for evs
                  using t1' a1 tid that by (rule request_registration_attempt)
                show "\<not> hash_ok (Inl e)" for e by (simp add: hash_ok_def)
              qed simp_all
              show ?thesis
              proof (cases r2)
                case (Inl e)
                then show ?thesis using st2 k2 gen parse valid f1 r1 resp tid f2 run c1 c2
                  unfolding c_def by (auto simp: defs)
              next
                case r2: (Inr tx)
                have c3: "history_count ?Q (trace s2) =
                            history_count ?Q (trace s) + (if tx_hash_ok tx then 1 else 0)"
                  using c1 c2 r2 by (simp add: tx_hash_ok_iff)
                show ?thesis
                proof (cases "tx_hash_ok tx")
                  case False
                  then show ?thesis using k2 gen parse valid f1 r1 resp tid f2 r2 run c3
                    unfolding c_def by (auto simp: defs)
                next
                  case True
                  then show ?thesis using st2 k2 gen parse valid f1 r1 resp tid f2 r2 run c3
                    unfolding c_def by (auto simp: defs)
                qed
              qed
            qed
          qed
        qed
      qed
    qed
  qed
qed



lemma history_count_new:
  assumes "history_count Q (tr @ evs) \<noteq> history_count Q tr"
  shows "\<exists>p. strict_prefix tr p \<and> prefix p (tr @ evs) \<and> Q p"
  using assms
proof (induction evs rule: rev_induct)
  case Nil
  then show ?case by simp
next
  case (snoc x xs)
  show ?case
  proof (cases "Q (tr @ xs @ [x])")
    case True
    have "strict_prefix tr (tr @ xs @ [x])" by (simp add: strict_prefix_def)
    with True show ?thesis by (intro exI [of _ "tr @ xs @ [x]"]) simp
  next
    case False
    have "history_count Q ((tr @ xs) @ [x]) = history_count Q (tr @ xs)"
      using False by (simp only: history_count_snoc) simp
    with snoc.prems have "history_count Q (tr @ xs) \<noteq> history_count Q tr" by simp
    from snoc.IH [OF this] obtain p where
      p: "strict_prefix tr p" "prefix p (tr @ xs)" "Q p" by blast
    have "prefix (tr @ xs) (tr @ xs @ [x])" by simp
    with p(2) have "prefix p (tr @ xs @ [x])" by (rule prefix_order.trans)
    with p show ?thesis by blast
  qed
qed

lemma new_registrationI:
  assumes "prefix (trace s) (trace s')"
    and "agents_registered env (trace s') \<noteq> agents_registered env (trace s) \<or>
         requests_registered env (trace s') \<noteq> requests_registered env (trace s)"
  shows "new_registration env s s'"
proof -
  from assms(1) obtain evs where e: "trace s' = trace s @ evs" by (auto simp: prefix_def)
  from assms(2) show ?thesis
  proof
    assume "agents_registered env (trace s') \<noteq> agents_registered env (trace s)"
    then have "\<exists>p. strict_prefix (trace s) p \<and> prefix p (trace s @ evs) \<and> agent_registered env p"
      unfolding agents_registered_def e by (rule history_count_new)
    then show ?thesis by (auto simp: new_registration_def e)
  next
    assume "requests_registered env (trace s') \<noteq> requests_registered env (trace s)"
    then have "\<exists>p. strict_prefix (trace s) p \<and> prefix p (trace s @ evs) \<and> request_registered env p"
      unfolding requests_registered_def e by (rule history_count_new)
    then show ?thesis by (auto simp: new_registration_def e)
  qed
qed

lemma new_registration_extend:
  assumes "new_registration env a b" "prefix (trace s) (trace a)" "prefix (trace b) (trace s')"
  shows "new_registration env s s'"
proof -
  from assms(1) obtain p where p: "prefix p (trace b)" "strict_prefix (trace a) p"
    "agent_registered env p \<or> request_registered env p"
    by (auto simp: new_registration_def)
  have "prefix p (trace s')" using p(1) assms(3) by (rule prefix_order.trans)
  moreover have "strict_prefix (trace s) p"
    using assms(2) p(2) by (rule prefix_order.le_less_trans)
  ultimately show ?thesis using p(3) by (auto simp: new_registration_def)
qed

subsection \<open>The work on one account\<close>

lemma count_rel_preorder: "preorder_on_states (count_rel env i)"
  unfolding preorder_on_states_def
proof (intro conjI allI impI)
  fix s
  have "step_rel UNIV i s s"
    using step_rel_preorder [of UNIV i] by (simp add: preorder_on_states_def)
  then show "count_rel env i s s" by (auto simp: count_rel_def)
next
  fix a b c assume ab: "count_rel env i a b" and bc: "count_rel env i b c"
  have s: "step_rel UNIV i a c"
    using ab bc by (auto simp: count_rel_def intro: step_rel_trans)
  have "agents st' - agents st =
          agents_registered env (trace c) - agents_registered env (trace a) \<and>
        requests st' - requests st =
          requests_registered env (trace c) - requests_registered env (trace a)"
    if e: "accountsStats a i = Some st" "accountsStats c i = Some st'" for st st'
  proof -
    from ab e(1) obtain sm where m: "accountsStats b i = Some sm"
      by (auto simp: count_rel_def step_rel_def entry_step_def)
    from ab e(1) m have 1: "agents sm - agents st =
          agents_registered env (trace b) - agents_registered env (trace a) \<and>
        requests sm - requests st =
          requests_registered env (trace b) - requests_registered env (trace a)"
      by (simp add: count_rel_def)
    from bc e(2) m have 2: "agents st' - agents sm =
          agents_registered env (trace c) - agents_registered env (trace b) \<and>
        requests st' - requests sm =
          requests_registered env (trace c) - requests_registered env (trace b)"
      by (simp add: count_rel_def)
    from 1 2 show ?thesis by linarith
  qed
  with s show "count_rel env i a c" by (simp add: count_rel_def)
qed

lemma count_rel_trans: "count_rel env i a b \<Longrightarrow> count_rel env i b c \<Longrightarrow> count_rel env i a c"
  using count_rel_preorder [of env i] unfolding preorder_on_states_def by blast

lemma count_rel_refl: "count_rel env i a a"
  using count_rel_preorder [of env i] unfolding preorder_on_states_def by blast

lemma frame_imp_count:
  assumes "frame E s s'" "\<And>e m args. e \<in> E \<Longrightarrow> e \<noteq> ContractCall m args"
  shows "count_rel env i s s'"
proof -
  have a: "agents_registered env (trace s') = agents_registered env (trace s)"
    unfolding agents_registered_def using assms(1)
    by (rule frame_history_count) (auto simp: not_agent_registered assms(2))
  have r: "requests_registered env (trace s') = requests_registered env (trace s)"
    unfolding requests_registered_def using assms(1)
    by (rule frame_history_count) (auto simp: not_request_registered assms(2))
  have "step_rel UNIV i s s'"
    using assms(1) by (auto intro: frame_imp_step step_rel_mono)
  moreover have "accountsStats s' = accountsStats s" using assms(1) by (simp add: frame_def)
  ultimately show ?thesis using a r by (auto simp: count_rel_def)
qed

lemma rp_call_count:
  "(\<And>m args. ev \<noteq> ContractCall m args) \<Longrightarrow> rel_post (count_rel env i) (call ev reply)"
  by (rule rp_weaken [OF rp_call_frame [of ev "{ev}"]]) (auto intro: frame_imp_count)

lemma rp_sleep_count: "rel_post (count_rel env i) (sleep ms)"
  by (rule rp_weaken [OF rp_sleep_frame [of ms "{Sleep ms}"]]) (auto intro: frame_imp_count)

lemma rp_update_count:
  assumes "\<And>st. counts_step st (f st)"
    and "\<And>st. agents (f st) = agents st" and "\<And>st. requests (f st) = requests st"
  shows "rel_post (count_rel env i) (update_stats i f)"
  unfolding rel_post_def count_rel_def
proof (intro allI conjI impI)
  fix s
  show "step_rel UNIV i s (snd (update_stats i f s))"
    using rp_update_step [of f UNIV i, OF assms(1)] by (simp add: rel_post_def)
next
  fix s st st'
  assume "accountsStats s i = Some st \<and> accountsStats (snd (update_stats i f s)) i = Some st'"
  then have "st' = f st" "trace (snd (update_stats i f s)) = trace s"
    by (auto simp: update_stats_def)
  then show "agents st' - agents st =
      agents_registered env (trace (snd (update_stats i f s))) - agents_registered env (trace s)"
    and "requests st' - requests st =
      requests_registered env (trace (snd (update_stats i f s))) - requests_registered env (trace s)"
    by (simp_all add: assms(2,3))
qed

lemma createAgent_events:
  "rel_post (step_rel {e. \<forall>args. e \<noteq> ContractCall ''addNewRequest'' args} idx)
     (createAgent env tok idx)"
  unfolding createAgent_def update_fuse generateAIResponse_def createNewAgent_def contractCall_def
  by (intro rp_structure rp_call_step rp_sleep_step rp_update_step step_rel_preorder)
     (simp_all add: counts_step_def inc_agents_def inc_txs_def inc_errors_def)

lemma createRequest_events:
  "rel_post (step_rel {e. \<forall>args. e \<noteq> ContractCall ''addNewAgent'' args} idx)
     (createRequest env tok idx)"
  unfolding createRequest_def update_fuse generateAIResponse_def createNewRequest_def contractCall_def
  by (intro rp_structure rp_call_step rp_sleep_step rp_update_step step_rel_preorder)
     (simp_all add: counts_step_def inc_requests_def inc_txs_def inc_errors_def)

lemma createAgent_count: "rel_post (count_rel env idx) (createAgent env tok idx)"
  unfolding rel_post_def count_rel_def
proof (intro allI conjI impI)
  fix s
  show "step_rel UNIV idx s (snd (createAgent env tok idx s))"
    using createAgent_step [of idx env tok] by (auto simp: rel_post_def intro: step_rel_mono)
next
  fix s st st'
  assume e: "accountsStats s idx = Some st \<and>
             accountsStats (snd (createAgent env tok idx s)) idx = Some st'"
  obtain r s' where run: "createAgent env tok idx s = (r, s')"
    by (cases "createAgent env tok idx s")
  have a: "agents_registered env (trace s') =
             agents_registered env (trace s) + (if r = Inr True then 1 else 0)"
    unfolding agents_registered_def using e run by (intro createAgent_registered) simp_all
  have "step_rel {e. \<forall>args. e \<noteq> ContractCall ''addNewRequest'' args} idx s s'"
    using createAgent_events run by (rule rel_postD)
  then have q: "requests_registered env (trace s') = requests_registered env (trace s)"
    unfolding requests_registered_def
    by (rule step_history_count) (auto simp: not_request_registered)
  from createAgent_outcome [of s idx st env tok] e run
  have "(r \<noteq> Inr True \<and> agents st' = agents st \<and> requests st' = requests st) \<or>
        (r = Inr True \<and> agents st' = agents st + 1 \<and> requests st' = requests st)"
    by (auto simp: inc_errors_def inc_txs_def inc_agents_def)
  with a q run
  show "agents st' - agents st =
      agents_registered env (trace (snd (createAgent env tok idx s))) -
      agents_registered env (trace s)"
    and "requests st' - requests st =
      requests_registered env (trace (snd (createAgent env tok idx s))) -
      requests_registered env (trace s)"
    by auto
qed

lemma createRequest_count: "rel_post (count_rel env idx) (createRequest env tok idx)"
  unfolding rel_post_def count_rel_def
proof (intro allI conjI impI)
  fix s
  show "step_rel UNIV idx s (snd (createRequest env tok idx s))"
    using createRequest_step [of idx env tok] by (auto simp: rel_post_def intro: step_rel_mono)
next
  fix s st st'
  assume e: "accountsStats s idx = Some st \<and>
             accountsStats (snd (createRequest env tok idx s)) idx = Some st'"
  obtain r s' where run: "createRequest env tok idx s = (r, s')"
    by (cases "createRequest env tok idx s")
  have a: "requests_registered env (trace s') =
             requests_registered env (trace s) + (if r = Inr True then 1 else 0)"
    unfolding requests_registered_def using e run by (intro createRequest_registered) simp_all
  have "step_rel {e. \<forall>args. e \<noteq> ContractCall ''addNewAgent'' args} idx s s'"
    using createRequest_events run by (rule rel_postD)
  then have q: "agents_registered env (trace s') = agents_registered env (trace s)"
    unfolding agents_registered_def
    by (rule step_history_count) (auto simp: not_agent_registered)
  from createRequest_outcome [of s idx st env tok] e run
  have "(r \<noteq> Inr True \<and> agents st' = agents st \<and> requests st' = requests st) \<or>
        (r = Inr True \<and> requests st' = requests st + 1 \<and> agents st' = agents st)"
    by (auto simp: inc_errors_def inc_txs_def inc_requests_def)
  with a q run
  show "agents st' - agents st =
      agents_registered env (trace (snd (createRequest env tok idx s))) -
      agents_registered env (trace s)"
    and "requests st' - requests st =
      requests_registered env (trace (snd (createRequest env tok idx s))) -
      requests_registered env (trace s)"
    by auto
qed

lemma run_tasks_count: "rel_post (count_rel env idx) (run_tasks env tok idx d)"
  unfolding run_tasks_def
  by (intro rp_structure rp_update_count count_rel_preorder createAgent_count createRequest_count)
     (simp_all add: counts_step_def)

lemma executeDailyTasks_count: "rel_post (count_rel env idx) (executeDailyTasks env td idx)"
  unfolding executeDailyTasks_def verifyDailyTask_def
  by (intro rp_structure rp_call_count rp_sleep_count rp_update_count count_rel_preorder
        run_tasks_count)
     (simp_all add: counts_step_def inc_errors_def)

lemma refresh_user_data_count: "rel_post (count_rel env idx) (refresh_user_data env td idx)"
  unfolding refresh_user_data_def getUserData_def
  by (intro rp_structure rp_call_count rp_update_count count_rel_preorder)
     (simp_all add: counts_step_def)

lemma account_failed_count: "rel_post (count_rel env idx) (account_failed idx cur)"
  unfolding account_failed_def
  by (intro rp_structure rp_update_count count_rel_preorder)
     (simp_all add: counts_step_def inc_errors_def)

lemma after_auth_count: "rel_post (count_rel env idx) (after_auth env td idx)"
  unfolding after_auth_def
  by (intro rp_structure count_rel_preorder executeDailyTasks_count refresh_user_data_count)

lemma tasks_count:
  "rel_post (count_rel env idx)
     (catch_eff (after_auth env td idx) (\<lambda>error. account_failed idx cur))"
  by (intro rp_catch count_rel_preorder after_auth_count account_failed_count)

lemma processAccount_count: "rel_post (count_rel env idx) (processAccount env key idx carried)"
  unfolding rel_post_def
proof
  fix s
  obtain r s1 where a: "authenticate env key idx carried s = (r, s1)"
    by (cases "authenticate env key idx carried s")
  have "frame (Collect is_auth_event) s s1" using authenticate_frame a by (rule rel_postD)
  then have 1: "count_rel env idx s s1"
    by (rule frame_imp_count) auto
  have f: "count_rel env idx s1 (snd (account_failed idx cur s1))" for cur
    using account_failed_count [of env idx cur] by (simp add: rel_post_def)
  have t: "count_rel env idx s1
             (snd (catch_eff (after_auth env td idx) (\<lambda>error. account_failed idx cur) s1))" for td cur
    using tasks_count [of env idx td cur] by (simp add: rel_post_def)
  have "count_rel env idx s1 (snd (processAccount env key idx carried s))"
    using a f t
    by (auto simp: processAccount_def count_rel_refl split: sum.splits option.splits)
  with 1 show "count_rel env idx s (snd (processAccount env key idx carried s))"
    by (rule count_rel_trans)
qed


lemma count_rel_txs:
  assumes "count_rel env i s s'" "accountsStats s i = Some st" "accountsStats s' i = Some st'"
  shows "txs st' - txs st =
           (agents_registered env (trace s') - agents_registered env (trace s)) +
           (requests_registered env (trace s') - requests_registered env (trace s))"
proof -
  have "counts_step st st'"
    using assms by (auto simp: count_rel_def step_rel_def entry_step_def)
  then show ?thesis using assms by (auto simp: count_rel_def counts_step_def)
qed

lemma counts_matchI:
  assumes "rel_post (count_rel env i) m"
  shows "counts_match env i m"
  unfolding counts_match_def
proof (intro allI impI)
  fix s st st'
  assume e: "accountsStats s i = Some st \<and> accountsStats (snd (m s)) i = Some st'"
  have c: "count_rel env i s (snd (m s))" using assms by (simp add: rel_post_def)
  from count_rel_txs [OF c] e c
  show "agents st' - agents st =
          agents_registered env (trace (snd (m s))) - agents_registered env (trace s) \<and>
        requests st' - requests st =
          requests_registered env (trace (snd (m s))) - requests_registered env (trace s) \<and>
        txs st' - txs st =
          (agents_registered env (trace (snd (m s))) - agents_registered env (trace s)) +
          (requests_registered env (trace (snd (m s))) - requests_registered env (trace s))"
    by (simp add: count_rel_def)
qed

subsection \<open>The work on all the accounts\<close>

lemma total_step:
  assumes "step_rel E idx s s'" "idx < n"
    and "accountsStats s idx = Some st" "accountsStats s' idx = Some st'"
  shows "total f n s' - total f n s = f st' - f st"
proof -
  let ?g = "\<lambda>t i. case accountsStats t i of None \<Rightarrow> 0 | Some st \<Rightarrow> f st"
  have o: "accountsStats s' j = accountsStats s j" if "j \<noteq> idx" for j
    using assms(1) that by (simp add: step_rel_def)
  have "total f n s' - total f n s = (\<Sum>i<n. ?g s' i - ?g s i)"
    by (simp add: total_def sum_subtractf)
  also have "\<dots> = (\<Sum>i<n. if i = idx then f st' - f st else 0)"
    by (rule sum.cong) (auto simp: o assms(3,4))
  also have "\<dots> = f st' - f st" using assms(2) by simp
  finally show ?thesis .
qed

lemma count_imp_loop:
  assumes c: "count_rel env idx s s'" and lt: "idx < n"
  shows "loop_rel env n s s'"
  unfolding loop_rel_def
proof (intro conjI allI impI)
  have st: "step_rel UNIV idx s s'" using c by (simp add: count_rel_def)
  then show ar: "accounts_rel s s'" by (rule step_imp_accounts)
  {
    fix j st0 st1
    assume e: "accountsStats s j = Some st0 \<and> accountsStats s' j = Some st1 \<and> txs st1 \<noteq> txs st0"
    have j: "j = idx"
    proof (rule ccontr)
      assume "j \<noteq> idx"
      then have "accountsStats s' j = accountsStats s j" using st by (simp add: step_rel_def)
      with e show False by auto
    qed
    from count_rel_txs [OF c] e j
    have "agents_registered env (trace s') \<noteq> agents_registered env (trace s) \<or>
          requests_registered env (trace s') \<noteq> requests_registered env (trace s)"
      by fastforce
    moreover have "prefix (trace s) (trace s')" using ar by (simp add: accounts_rel_def)
    ultimately show "new_registration env s s'" by (rule new_registrationI [rotated])
  }
  {
    assume all: "\<forall>i<n. accountsStats s i \<noteq> None"
    then obtain st0 where s0: "accountsStats s idx = Some st0" using lt by auto
    then obtain st1 where s1: "accountsStats s' idx = Some st1"
      using st by (auto simp: step_rel_def entry_step_def)
    from c s0 s1 have d: "agents st1 - agents st0 =
        agents_registered env (trace s') - agents_registered env (trace s)"
      "requests st1 - requests st0 =
        requests_registered env (trace s') - requests_registered env (trace s)"
      by (simp_all add: count_rel_def)
    show "total agents n s' - total agents n s =
            agents_registered env (trace s') - agents_registered env (trace s)"
      using total_step [OF st lt s0 s1, of agents] d by simp
    show "total requests n s' - total requests n s =
            requests_registered env (trace s') - requests_registered env (trace s)"
      using total_step [OF st lt s0 s1, of requests] d by simp
  }
qed

lemma loop_rel_refl: "loop_rel env n s s"
  by (auto simp: loop_rel_def accounts_rel_refl)

lemma loop_rel_trans:
  assumes ab: "loop_rel env n a b" and bc: "loop_rel env n b c"
  shows "loop_rel env n a c"
  unfolding loop_rel_def
proof (intro conjI allI impI)
  have rab: "accounts_rel a b" and rbc: "accounts_rel b c"
    using ab bc by (simp_all add: loop_rel_def)
  then show "accounts_rel a c" by (rule accounts_rel_trans)
  have pab: "prefix (trace a) (trace b)" and pbc: "prefix (trace b) (trace c)"
    using rab rbc by (simp_all add: accounts_rel_def)
  {
    fix j st st'
    assume e: "accountsStats a j = Some st \<and> accountsStats c j = Some st' \<and> txs st' \<noteq> txs st"
    have "entry_step (accountsStats a j) (accountsStats b j)"
      using rab by (simp add: accounts_rel_def)
    with e obtain sm where m: "accountsStats b j = Some sm" by (auto simp: entry_step_def)
    from e have "txs sm \<noteq> txs st \<or> txs st' \<noteq> txs sm" by auto
    then show "new_registration env a c"
    proof
      assume "txs sm \<noteq> txs st"
      with ab e m have "new_registration env a b" unfolding loop_rel_def by blast
      then show ?thesis by (rule new_registration_extend [OF _ _ pbc]) simp
    next
      assume "txs st' \<noteq> txs sm"
      with bc e m have "new_registration env b c" unfolding loop_rel_def by blast
      then show ?thesis by (rule new_registration_extend [OF _ pab]) simp
    qed
  }
  {
    assume all: "\<forall>i<n. accountsStats a i \<noteq> None"
    have allb: "\<forall>i<n. accountsStats b i \<noteq> None"
    proof (intro allI impI)
      fix i assume "i < n"
      with all obtain st where "accountsStats a i = Some st" by auto
      moreover have "entry_step (accountsStats a i) (accountsStats b i)"
        using rab by (simp add: accounts_rel_def)
      ultimately show "accountsStats b i \<noteq> None" by (auto simp: entry_step_def)
    qed
    from ab all have 1: "total agents n b - total agents n a =
           agents_registered env (trace b) - agents_registered env (trace a)"
        "total requests n b - total requests n a =
           requests_registered env (trace b) - requests_registered env (trace a)"
      by (simp_all add: loop_rel_def)
    from bc allb have 2: "total agents n c - total agents n b =
           agents_registered env (trace c) - agents_registered env (trace b)"
        "total requests n c - total requests n b =
           requests_registered env (trace c) - requests_registered env (trace b)"
      by (simp_all add: loop_rel_def)
    show "total agents n c - total agents n a =
           agents_registered env (trace c) - agents_registered env (trace a)"
      using 1(1) 2(1) by linarith
    show "total requests n c - total requests n a =
           requests_registered env (trace c) - requests_registered env (trace a)"
      using 1(2) 2(2) by linarith
  }
qed

lemma loop_rel_waits:
  assumes "accountsStats s' = accountsStats s" "trace s' = trace s @ evs"
    and "\<And>e. e \<in> set evs \<Longrightarrow> is_sleep e"
  shows "loop_rel env n s s'"
proof -
  have n: "e \<noteq> ContractCall m args" if "e \<in> set evs" for e m args
    using assms(3) [OF that] by auto
  have a: "agents_registered env (trace s') = agents_registered env (trace s)"
    unfolding agents_registered_def assms(2)
    by (rule history_count_append_none) (auto simp: not_agent_registered n)
  have r: "requests_registered env (trace s') = requests_registered env (trace s)"
    unfolding requests_registered_def assms(2)
    by (rule history_count_append_none) (auto simp: not_request_registered n)
  have "accounts_rel s s'"
    by (simp add: accounts_rel_def assms(1,2) entry_step_refl)
  then show ?thesis using a r assms(1) by (auto simp: loop_rel_def total_def)
qed

lemma pacing_loop:
  "loop_rel env n s1 (snd ((if c then sleep 3000 else ret ()) (s1\<lparr>tokenDataArray := xs\<rparr>)))"
proof (cases c)
  case True
  show ?thesis by (rule loop_rel_waits [of _ _ "[Sleep 3000]"]) (simp_all add: True sleep_def)
next
  case False
  show ?thesis by (rule loop_rel_waits [of _ _ "[]"]) (simp_all add: False ret_def)
qed

lemma process_accounts_loop:
  "length keys \<le> n \<Longrightarrow> loop_rel env n s (snd (process_accounts env keys i s))"
proof (induction env keys i s rule: process_accounts.induct)
  case (1 env keys i s)
  show ?case
  proof (cases "i < length keys")
    case False
    then show ?thesis by (subst process_accounts.simps) (simp add: loop_rel_refl)
  next
    case True
    obtain r s1 where p: "processAccount env (keys ! i) i (array_get (tokenDataArray s) i) s = (r, s1)"
      by (cases "processAccount env (keys ! i) i (array_get (tokenDataArray s) i) s")
    have c: "count_rel env i s s1" using processAccount_count p by (rule rel_postD)
    have "i < n" using True "1.prems" by simp
    with c have 1: "loop_rel env n s s1" by (rule count_imp_loop)
    show ?thesis
    proof (cases r)
      case (Inl e)
      then show ?thesis using True p 1 by (subst process_accounts.simps) simp
    next
      case (Inr td)
      let ?s2 = "snd ((if i < length keys - 1 then sleep 3000 else ret ())
                       (s1\<lparr>tokenDataArray := array_set (tokenDataArray s1) i td\<rparr>))"
      have 2: "loop_rel env n s1 ?s2" by (rule pacing_loop)
      have 3: "loop_rel env n ?s2 (snd (process_accounts env keys (i + 1) ?s2))"
        using "1.IH" [OF True p [symmetric] _ "1.prems"] Inr by simp
      have "loop_rel env n s (snd (process_accounts env keys (i + 1) ?s2))"
        using 1 2 3 by (blast intro: loop_rel_trans)
      then show ?thesis using True p Inr by (subst process_accounts.simps) simp
    qed
  qed
qed

lemma main_iteration_loop:
  assumes "length keys \<le> n"
  shows "loop_rel env n s (snd (main_iteration env keys w s))"
proof -
  let ?s0 = "s\<lparr>cycleCount := cycleCount s + 1\<rparr>"
  obtain r s1 where p: "process_accounts env keys 0 ?s0 = (r, s1)"
    by (cases "process_accounts env keys 0 ?s0")
  have "loop_rel env n s ?s0" by (rule loop_rel_waits [of _ _ "[]"]) simp_all
  moreover have "loop_rel env n ?s0 s1"
    using process_accounts_loop [OF assms, of env ?s0 0] p by simp
  ultimately have 1: "loop_rel env n s s1" by (rule loop_rel_trans)
  have 2: "loop_rel env n s1 (s1\<lparr>trace := trace s1 @ [Sleep ms]\<rparr>)" for ms
    by (rule loop_rel_waits [of _ _ "[Sleep ms]"]) simp_all
  have "loop_rel env n s1 (snd (main_iteration env keys w s))"
    using p 2
    by (auto simp: main_iteration_def catch_eff_def bind_eff_def summary_def countdownTimer_def
        sleep_def loop_rel_refl split: sum.splits option.splits)
  with 1 show ?thesis by (rule loop_rel_trans)
qed

lemma main_loop_loop:
  assumes "length keys \<le> n"
  shows "loop_rel env n s (main_loop env keys w k s)"
proof (induction k)
  case 0
  show ?case by (simp add: loop_rel_refl)
next
  case (Suc k)
  have "loop_rel env n (main_loop env keys w k s)
          (snd (main_iteration env keys w (main_loop env keys w k s)))"
    using assms by (rule main_iteration_loop)
  with Suc show ?case by (simp add: loop_rel_trans)
qed

lemma history_count_Nil: "\<not> Q [] \<Longrightarrow> history_count Q [] = 0"
  by (simp add: history_count_def)

lemma registered_Nil [simp]:
  "agents_registered env [] = 0" "requests_registered env [] = 0"
  by (simp_all add: agents_registered_def requests_registered_def history_count_Nil
      agent_registered_def request_registered_def)

lemma loop_rel_txs:
  assumes l: "loop_rel env n s s'" and all: "\<forall>i<n. accountsStats s i \<noteq> None"
  shows "total txs n s' - total txs n s =
           (total agents n s' - total agents n s) + (total requests n s' - total requests n s)"
proof -
  let ?g = "\<lambda>f t i. case accountsStats t i of None \<Rightarrow> 0 | Some st \<Rightarrow> (f st :: int)"
  have e: "?g txs s' i - ?g txs s i =
             (?g agents s' i - ?g agents s i) + (?g requests s' i - ?g requests s i)"
    if "i < n" for i
  proof -
    have "entry_step (accountsStats s i) (accountsStats s' i)"
      using l by (simp add: loop_rel_def accounts_rel_def)
    then show ?thesis by (auto simp: entry_step_def counts_step_def split: option.splits)
  qed
  have "total txs n s' - total txs n s = (\<Sum>i<n. ?g txs s' i - ?g txs s i)"
    by (simp add: total_def sum_subtractf)
  also have "\<dots> = (\<Sum>i<n. (?g agents s' i - ?g agents s i) + (?g requests s' i - ?g requests s i))"
    by (rule sum.cong) (simp_all add: e)
  also have "\<dots> = (total agents n s' - total agents n s) + (total requests n s' - total requests n s)"
    by (simp add: total_def sum_subtractf sum.distrib)
  finally show ?thesis .
qed

lemma main_setup_total:
  assumes "f (new_stats (date_now env (trace s))) = 0"
  shows "total f (length keys) (main_setup env keys s) = 0"
  by (simp add: total_def main_setup_stats assms)

lemma main_loop_totals:
  assumes "keys \<noteq> []"
    and l0: "loop_rel env (length keys) (main_setup env keys initial_state) s'"
  shows "total agents (length keys) s' = agents_registered env (trace s') \<and>
         total requests (length keys) s' = requests_registered env (trace s') \<and>
         total txs (length keys) s' =
           agents_registered env (trace s') + requests_registered env (trace s')"
proof -
  define s0 where "s0 = main_setup env keys initial_state"
  have l: "loop_rel env (length keys) s0 s'" using l0 by (simp add: s0_def)
  have all: "\<forall>i<length keys. accountsStats s0 i \<noteq> None"
    by (simp add: s0_def main_setup_stats)
  have t: "trace s0 = []" by (simp add: s0_def main_setup_def initial_state_def)
  have z: "total agents (length keys) s0 = 0" "total requests (length keys) s0 = 0"
    "total txs (length keys) s0 = 0"
    unfolding s0_def by (rule main_setup_total, simp add: new_stats_def)+
  from l all have "total agents (length keys) s' - total agents (length keys) s0 =
           agents_registered env (trace s') - agents_registered env (trace s0)"
     "total requests (length keys) s' - total requests (length keys) s0 =
           requests_registered env (trace s') - requests_registered env (trace s0)"
    by (simp_all add: loop_rel_def)
  with loop_rel_txs [OF l all] z t show ?thesis by simp
qed

lemma main_totals:
  "total agents (length keys) (main env keys w n) = agents_registered env (trace (main env keys w n)) \<and>
   total requests (length keys) (main env keys w n) =
     requests_registered env (trace (main env keys w n)) \<and>
   total txs (length keys) (main env keys w n) =
     agents_registered env (trace (main env keys w n)) +
     requests_registered env (trace (main env keys w n))"
proof (cases "keys = []")
  case True
  then show ?thesis by (simp add: main_def initial_state_def total_def)
next
  case False
  have "loop_rel env (length keys) (main_setup env keys initial_state)
          (main_loop env keys w n (main_setup env keys initial_state))"
    by (rule main_loop_loop) simp
  from main_loop_totals [OF False this] False show ?thesis by (simp add: main_def)
qed

lemma mid_cycle_totals:
  assumes "s' = snd (process_accounts env (take k keys) 0
                       ((main env keys w n)\<lparr>cycleCount := cycleCount (main env keys w n) + 1\<rparr>))"
  shows "total agents (length keys) s' = agents_registered env (trace s') \<and>
         total requests (length keys) s' = requests_registered env (trace s') \<and>
         total txs (length keys) s' =
           agents_registered env (trace s') + requests_registered env (trace s')"
proof (cases "keys = []")
  case True
  then show ?thesis
    by (simp add: assms main_def initial_state_def total_def process_accounts.simps)
next
  case False
  let ?m = "main_loop env keys w n (main_setup env keys initial_state)"
  let ?m1 = "?m\<lparr>cycleCount := cycleCount ?m + 1\<rparr>"
  have 1: "loop_rel env (length keys) (main_setup env keys initial_state) ?m"
    by (rule main_loop_loop) simp
  have 2: "loop_rel env (length keys) ?m ?m1"
    by (rule loop_rel_waits [of _ _ "[]"]) simp_all
  have 3: "loop_rel env (length keys) ?m1 (snd (process_accounts env (take k keys) 0 ?m1))"
    by (rule process_accounts_loop) simp
  have "loop_rel env (length keys) (main_setup env keys initial_state)
          (snd (process_accounts env (take k keys) 0 ?m1))"
    using 1 2 3 by (blast intro: loop_rel_trans)
  from main_loop_totals [OF False this] False show ?thesis by (simp add: assms main_def)
qed

lemma txs_registered_loop:
  assumes "\<And>s::state. loop_rel env n s (snd (m s))"
  shows "txs_registered env m"
  unfolding txs_registered_def
proof (intro allI impI)
  fix s :: state and j st st'
  assume "accountsStats s j = Some st \<and> accountsStats (snd (m s)) j = Some st' \<and> txs st' \<noteq> txs st"
  with assms [of s] show "new_registration env s (snd (m s))" unfolding loop_rel_def by blast
qed

lemma txs_registered_count:
  assumes "rel_post (count_rel env i) m"
  shows "txs_registered env m"
proof (rule txs_registered_loop)
  fix s :: state
  have "count_rel env i s (snd (m s))" using assms by (simp add: rel_post_def)
  then show "loop_rel env (Suc i) s (snd (m s))" by (rule count_imp_loop) simp
qed

section \<open>The invariants of the counters\<close>

lemma keeps_accounts_rel:
  assumes "\<And>s::state. accounts_rel s (snd (m s))"
    and "\<And>st st'. counts_step st st' \<Longrightarrow> P st \<Longrightarrow> P st'"
  shows "keeps P m"
  unfolding keeps_def
proof (intro allI impI)
  fix s :: state and i st
  assume a: "accountsStats s i = Some st \<and> P st"
  have "entry_step (accountsStats s i) (accountsStats (snd (m s)) i)"
    using assms(1) [of s] by (simp add: accounts_rel_def)
  with a obtain st' where "accountsStats (snd (m s)) i = Some st'" "counts_step st st'"
    by (auto simp: entry_step_def)
  with a assms(2) show "\<exists>st'. accountsStats (snd (m s)) i = Some st' \<and> P st'" by blast
qed

lemma keeps_step:
  assumes "rel_post (step_rel E idx) m"
    and "\<And>st st'. counts_step st st' \<Longrightarrow> P st \<Longrightarrow> P st'"
  shows "keeps P m"
proof (rule keeps_accounts_rel)
  fix s :: state
  have "step_rel E idx s (snd (m s))" using assms(1) by (simp add: rel_post_def)
  then show "accounts_rel s (snd (m s))" by (rule step_imp_accounts)
qed (rule assms(2))

lemma step_counts:
  assumes "rel_post (step_rel E idx) m" "accountsStats s idx = Some st"
  shows "\<exists>st'. accountsStats (snd (m s)) idx = Some st' \<and> counts_step st st'"
proof -
  have "step_rel E idx s (snd (m s))" using assms(1) by (simp add: rel_post_def)
  then show ?thesis using assms(2) by (auto simp: step_rel_def entry_step_def)
qed

lemma createAgent_txs_changed:
  assumes "accountsStats s idx = Some st"
    and "accountsStats (snd (createAgent env tok idx s)) idx = Some st'"
    and "txs st' \<noteq> txs st"
  shows "fst (createAgent env tok idx s) = Inr True \<and>
         txs st' = txs st + 1 \<and> agents st' = agents st + 1 \<and>
         (\<exists>name desc agentID h.
            answered (createNewAgent_reply env) (CreateNewAgent tok name desc) (Data agentID)
              s (snd (createAgent env tok idx s)) \<and>
            truthy agentID \<and>
            answered (contractCall_reply env) (ContractCall ''addNewAgent'' [agentID, name, desc])
              (Some h) s (snd (createAgent env tok idx s)) \<and>
            truthy h)"
proof -
  from createAgent_outcome [OF assms(1), of env tok] obtain r s' where
    run: "createAgent env tok idx s = (r, s')" and
    out: "(r = Inr False \<and> accountsStats s' = accountsStats s) \<or>
      (r = Inr False \<and> accountsStats s' = (accountsStats s)(idx \<mapsto> inc_errors st)) \<or>
      (r = Inr True \<and> accountsStats s' = (accountsStats s)(idx \<mapsto> inc_txs (inc_agents st)) \<and>
       (\<exists>name desc agentID h.
           answered (createNewAgent_reply env) (CreateNewAgent tok name desc) (Data agentID) s s' \<and>
           truthy agentID \<and>
           answered (contractCall_reply env) (ContractCall ''addNewAgent'' [agentID, name, desc])
             (Some h) s s' \<and>
           truthy h))"
    by blast
  from out show ?thesis
  proof (elim disjE conjE)
    assume "accountsStats s' = accountsStats s"
    then show ?thesis using assms run by simp
  next
    assume "accountsStats s' = (accountsStats s)(idx \<mapsto> inc_errors st)"
    then show ?thesis using assms run by (auto simp: inc_errors_def)
  next
    assume "r = Inr True" "accountsStats s' = (accountsStats s)(idx \<mapsto> inc_txs (inc_agents st))"
      and "\<exists>name desc agentID h.
           answered (createNewAgent_reply env) (CreateNewAgent tok name desc) (Data agentID) s s' \<and>
           truthy agentID \<and>
           answered (contractCall_reply env) (ContractCall ''addNewAgent'' [agentID, name, desc])
             (Some h) s s' \<and>
           truthy h"
    then show ?thesis using assms run by (auto simp: inc_txs_def inc_agents_def)
  qed
qed

lemma createRequest_txs_changed:
  assumes "accountsStats s idx = Some st"
    and "accountsStats (snd (createRequest env tok idx s)) idx = Some st'"
    and "txs st' \<noteq> txs st"
  shows "fst (createRequest env tok idx s) = Inr True \<and>
         txs st' = txs st + 1 \<and> requests st' = requests st + 1 \<and>
         (\<exists>name desc requestID h.
            answered (createNewRequest_reply env) (CreateNewRequest tok name desc) (Data requestID)
              s (snd (createRequest env tok idx s)) \<and>
            truthy requestID \<and>
            answered (contractCall_reply env) (ContractCall ''addNewRequest'' [requestID, name])
              (Some h) s (snd (createRequest env tok idx s)) \<and>
            truthy h)"
proof -
  from createRequest_outcome [OF assms(1), of env tok] obtain r s' where
    run: "createRequest env tok idx s = (r, s')" and
    out: "(r = Inr False \<and> accountsStats s' = accountsStats s) \<or>
      (r = Inr False \<and> accountsStats s' = (accountsStats s)(idx \<mapsto> inc_errors st)) \<or>
      (r = Inr True \<and> accountsStats s' = (accountsStats s)(idx \<mapsto> inc_txs (inc_requests st)) \<and>
       (\<exists>name desc requestID h.
           answered (createNewRequest_reply env) (CreateNewRequest tok name desc) (Data requestID) s s' \<and>
           truthy requestID \<and>
           answered (contractCall_reply env) (ContractCall ''addNewRequest'' [requestID, name])
             (Some h) s s' \<and>
           truthy h))"
    by blast
  from out show ?thesis
  proof (elim disjE conjE)
    assume "accountsStats s' = accountsStats s"
    then show ?thesis using assms run by simp
  next
    assume "accountsStats s' = (accountsStats s)(idx \<mapsto> inc_errors st)"
    then show ?thesis using assms run by (auto simp: inc_errors_def)
  next
    assume "r = Inr True" "accountsStats s' = (accountsStats s)(idx \<mapsto> inc_txs (inc_requests st))"
      and "\<exists>name desc requestID h.
           answered (createNewRequest_reply env) (CreateNewRequest tok name desc) (Data requestID) s s' \<and>
           truthy requestID \<and>
           answered (contractCall_reply env) (ContractCall ''addNewRequest'' [requestID, name])
             (Some h) s s' \<and>
           truthy h"
    then show ?thesis using assms run by (auto simp: inc_txs_def inc_requests_def)
  qed
qed

lemma createAgent_counts:
  assumes "accountsStats s idx = Some st"
  shows "\<exists>st'. accountsStats (snd (createAgent env tok idx s)) idx = Some st' \<and>
           requests st' = requests st \<and>
           (agents st' = agents st \<and> txs st' = txs st \<or>
            agents st' = agents st + 1 \<and> txs st' = txs st + 1)"
proof -
  from createAgent_outcome [OF assms, of env tok] obtain r s' where
    run: "createAgent env tok idx s = (r, s')" and
    out: "accountsStats s' = accountsStats s \<or>
      accountsStats s' = (accountsStats s)(idx \<mapsto> inc_errors st) \<or>
      accountsStats s' = (accountsStats s)(idx \<mapsto> inc_txs (inc_agents st))"
    by blast
  from out show ?thesis
    using assms run by (elim disjE) (simp_all add: inc_errors_def inc_txs_def inc_agents_def)
qed

lemma createRequest_counts:
  assumes "accountsStats s idx = Some st"
  shows "\<exists>st'. accountsStats (snd (createRequest env tok idx s)) idx = Some st' \<and>
           agents st' = agents st \<and>
           (requests st' = requests st \<and> txs st' = txs st \<or>
            requests st' = requests st + 1 \<and> txs st' = txs st + 1)"
proof -
  from createRequest_outcome [OF assms, of env tok] obtain r s' where
    run: "createRequest env tok idx s = (r, s')" and
    out: "accountsStats s' = accountsStats s \<or>
      accountsStats s' = (accountsStats s)(idx \<mapsto> inc_errors st) \<or>
      accountsStats s' = (accountsStats s)(idx \<mapsto> inc_txs (inc_requests st))"
    by blast
  from out show ?thesis
    using assms run by (elim disjE) (simp_all add: inc_errors_def inc_txs_def inc_requests_def)
qed

lemma main_start:
  assumes "i < length keys"
  shows "accountsStats (main env keys w 0) i = Some (new_stats (date_now env []))"
  using assms main_setup_stats [OF assms, of env initial_state]
  by (auto simp: main_def initial_state_def)

text \<open>One account, one iteration of the loop, every collaborator answering.\<close>

lemma setup_run:
  "main_setup base_env [''0xkey''] initial_state =
     \<lparr>trace = [], accountsStats = [0 \<mapsto> new_stats 4600000], tokenDataArray = [None], cycleCount = 0\<rparr>"
  by (simp add: main_setup_def initial_state_def base_env_def)

lemma one_run:
  "processAccount base_env ''0xkey'' 0 None
     \<lparr>trace = [], accountsStats = [0 \<mapsto> new_stats 4600000], tokenDataArray = [None], cycleCount = c\<rparr>
   = (Inr (Some session),
     \<lparr>trace = [GetNonce ''0xabc'', Sign ''0xkey'' (JStr ''nonce''),
   Login ''0xabc'' (JStr ''signature'') (JStr ''nonce''),
   SetInviter (JStr ''token''), VerifyDailyTask (JStr ''token'') ''0xabc'',
   GenerateAIResponse ''create agent'' ''createAgent'',
   CreateNewAgent (JStr ''token'') (JStr ''name'') (JStr ''text''),
   ContractCall ''addNewAgent'' [JNum 11, JStr ''name'', JStr ''text''],
   GenerateAIResponse ''create request'' ''createRequest'',
   CreateNewRequest (JStr ''token'') (JStr ''title'') (JStr ''text''),
   ContractCall ''addNewRequest'' [JNum 12, JStr ''title''],
   GetUserData (JStr ''token'')], accountsStats = [0 \<mapsto> \<lparr>uid = JStr ''uid'', totalPoint = JNum 795, days = JNum 3, agents = 1,
          requests = 1, txs = 2, errors = 0, lastRun = Some 4600000,
          startTime = 4600000, cooldownSeconds = Some 82800\<rparr>], tokenDataArray = [None], cycleCount = c\<rparr>)"
  by (simp add: run_defs base_env_def new_stats_def session_def)

lemma process_accounts_single:
  "process_accounts env [k] 0 s =
     (case processAccount env k 0 (array_get (tokenDataArray s) 0) s of
        (Inl e, s1) \<Rightarrow> (Inl e, s1)
      | (Inr td, s1) \<Rightarrow> (Inr (), s1\<lparr>tokenDataArray := array_set (tokenDataArray s1) 0 td\<rparr>))"
  apply (subst process_accounts.simps)
  apply (simp split: prod.splits sum.splits)
  apply (subst process_accounts.simps)
  apply (simp add: ret_def)
  done

lemma base_main_run:
  "accountsStats (main base_env [''0xkey''] 12 (Suc 0)) 0 =
     Some \<lparr>uid = JStr ''uid'', totalPoint = JNum 795, days = JNum 3, agents = 1,
          requests = 1, txs = 2, errors = 0, lastRun = Some 4600000,
          startTime = 4600000, cooldownSeconds = Some 82800\<rparr>"
  by (simp add: main_def setup_run main_iteration_def process_accounts_single one_run
      array_get_def bind_eff_def catch_eff_def summary_def countdownTimer_def sleep_def)

lemma mid_cycle_counters:
  assumes "i < length keys"
  shows "\<exists>st. accountsStats
                (snd (process_accounts env (take k keys) 0
                        ((main env keys w n)\<lparr>cycleCount := cycleCount (main env keys w n) + 1\<rparr>))) i
              = Some st \<and>
              counts_step (new_stats (date_now env [])) st"
proof -
  let ?s = "(main env keys w n)\<lparr>cycleCount := cycleCount (main env keys w n) + 1\<rparr>"
  from main_counters [OF assms, of env w n] obtain st0
    where 0: "accountsStats ?s i = Some st0" "counts_step (new_stats (date_now env [])) st0"
    by auto
  have "accounts_rel ?s (snd (process_accounts env (take k keys) 0 ?s))"
    by (rule process_accounts_rel)
  then have "entry_step (accountsStats ?s i)
               (accountsStats (snd (process_accounts env (take k keys) 0 ?s)) i)"
    by (simp add: accounts_rel_def)
  with 0(1) obtain st where
    1: "accountsStats (snd (process_accounts env (take k keys) 0 ?s)) i = Some st"
      "counts_step st0 st"
    by (auto simp: entry_step_def)
  from 0(2) 1(2) have "counts_step (new_stats (date_now env [])) st" by (rule counts_step_trans)
  with 1(1) show ?thesis by blast
qed

lemma new_stats_counters: "counters_bounded (new_stats t)" "counters_exact (new_stats t)"
  by (simp_all add: counters_bounded_def counters_exact_def new_stats_def)

text \<open>
  C2. Whatever the collaborators do, after any number of iterations of the main loop every
  configured account has \<open>errors \<ge> 0\<close> and \<open>txs \<le> agents + requests\<close>, also in the middle
  of the next iteration, when only the first \<open>k\<close> accounts have been processed. Each function of
  the program that touches the statistics keeps this predicate, for every account. And
  \<open>txs\<close> moves only on success: when \<^verbatim>\<open>createAgent\<close> (or \<^verbatim>\<open>createRequest\<close>) has changed
  \<open>txs\<close>, it has returned \<^verbatim>\<open>true\<close>, \<open>txs\<close> and \<open>agents\<close> (or \<open>requests\<close>) have each grown by
  one, and during that call the platform answered the creation with a truthy identifier
  and the on-chain registration of that identifier answered with a truthy hash.

  The same holds above these two functions. Across \<^verbatim>\<open>createAgent\<close>, \<^verbatim>\<open>createRequest\<close>, the
  part of \<^verbatim>\<open>executeDailyTasks\<close> after the validations, \<^verbatim>\<open>executeDailyTasks\<close> and
  \<^verbatim>\<open>processAccount\<close>, the counters \<open>agents\<close> and \<open>requests\<close> of the account grow by the
  number of registrations of their kind that the call adds to the history, and \<open>txs\<close> by
  the sum of the two; a registration is a call of \<^verbatim>\<open>addNewAgent\<close> (or \<^verbatim>\<open>addNewRequest\<close>)
  answered with a truthy hash, for a truthy identifier that the platform had returned to
  the creation right before it. So when one of these functions, or an iteration of the
  main loop, has changed \<open>txs\<close> of any account, it has added a registration to the history.
  Summed over the configured accounts, the counters grow across an iteration of the loop
  by the registrations of that iteration, and after any number of iterations, also in the
  middle of the next one, the sum of \<open>txs\<close> is the number of registrations in the whole
  history.
\<close>

theorem counters_bounded_invariant:
  "(\<forall>i < length keys.
      \<exists>st. accountsStats (main env keys w n) i = Some st \<and> counters_bounded st) \<and>
   (\<forall>i < length keys. \<forall>k.
      \<exists>st. accountsStats
             (snd (process_accounts env (take k keys) 0
                     ((main env keys w n)\<lparr>cycleCount := cycleCount (main env keys w n) + 1\<rparr>))) i
           = Some st \<and> counters_bounded st) \<and>
   keeps counters_bounded (createAgent env tok idx) \<and>
   keeps counters_bounded (createRequest env tok idx) \<and>
   keeps counters_bounded (executeDailyTasks env td idx) \<and>
   keeps counters_bounded (processAccount env key idx carried) \<and>
   keeps counters_bounded (main_iteration env keys w) \<and>
   (\<forall>s st st'.
      accountsStats s idx = Some st \<and>
      accountsStats (snd (createAgent env tok idx s)) idx = Some st' \<and> txs st' \<noteq> txs st \<longrightarrow>
      fst (createAgent env tok idx s) = Inr True \<and>
      txs st' = txs st + 1 \<and> agents st' = agents st + 1 \<and>
      (\<exists>name desc agentID h.
         answered (createNewAgent_reply env) (CreateNewAgent tok name desc) (Data agentID)
           s (snd (createAgent env tok idx s)) \<and>
         truthy agentID \<and>
         answered (contractCall_reply env) (ContractCall ''addNewAgent'' [agentID, name, desc])
           (Some h) s (snd (createAgent env tok idx s)) \<and>
         truthy h)) \<and>
   (\<forall>s st st'.
      accountsStats s idx = Some st \<and>
      accountsStats (snd (createRequest env tok idx s)) idx = Some st' \<and> txs st' \<noteq> txs st \<longrightarrow>
      fst (createRequest env tok idx s) = Inr True \<and>
      txs st' = txs st + 1 \<and> requests st' = requests st + 1 \<and>
      (\<exists>name desc requestID h.
         answered (createNewRequest_reply env) (CreateNewRequest tok name desc) (Data requestID)
           s (snd (createRequest env tok idx s)) \<and>
         truthy requestID \<and>
         answered (contractCall_reply env) (ContractCall ''addNewRequest'' [requestID, name])
           (Some h) s (snd (createRequest env tok idx s)) \<and>
         truthy h)) \<and>
   counts_match env idx (createAgent env tok idx) \<and>
   counts_match env idx (createRequest env tok idx) \<and>
   counts_match env idx (run_tasks env tok idx d) \<and>
   counts_match env idx (executeDailyTasks env td idx) \<and>
   counts_match env idx (processAccount env key idx carried) \<and>
   txs_registered env (run_tasks env tok idx d) \<and>
   txs_registered env (executeDailyTasks env td idx) \<and>
   txs_registered env (processAccount env key idx carried) \<and>
   txs_registered env (main_iteration env keys w) \<and>
   (\<forall>s. (\<forall>i < length keys. accountsStats s i \<noteq> None) \<longrightarrow>
      total agents (length keys) (snd (main_iteration env keys w s)) - total agents (length keys) s =
        agents_registered env (trace (snd (main_iteration env keys w s))) -
        agents_registered env (trace s) \<and>
      total requests (length keys) (snd (main_iteration env keys w s)) -
        total requests (length keys) s =
        requests_registered env (trace (snd (main_iteration env keys w s))) -
        requests_registered env (trace s) \<and>
      total txs (length keys) (snd (main_iteration env keys w s)) - total txs (length keys) s =
        (agents_registered env (trace (snd (main_iteration env keys w s))) -
         agents_registered env (trace s)) +
        (requests_registered env (trace (snd (main_iteration env keys w s))) -
         requests_registered env (trace s))) \<and>
   total agents (length keys) (main env keys w n) =
     agents_registered env (trace (main env keys w n)) \<and>
   total requests (length keys) (main env keys w n) =
     requests_registered env (trace (main env keys w n)) \<and>
   total txs (length keys) (main env keys w n) =
     agents_registered env (trace (main env keys w n)) +
     requests_registered env (trace (main env keys w n)) \<and>
   (\<forall>k. total txs (length keys)
          (snd (process_accounts env (take k keys) 0
                  ((main env keys w n)\<lparr>cycleCount := cycleCount (main env keys w n) + 1\<rparr>))) =
        agents_registered env
          (trace (snd (process_accounts env (take k keys) 0
                  ((main env keys w n)\<lparr>cycleCount := cycleCount (main env keys w n) + 1\<rparr>)))) +
        requests_registered env
          (trace (snd (process_accounts env (take k keys) 0
                  ((main env keys w n)\<lparr>cycleCount := cycleCount (main env keys w n) + 1\<rparr>)))))"
proof (intro conjI allI impI)
  fix i assume "i < length keys"
  from main_counters [OF this, of env w n]
  show "\<exists>st. accountsStats (main env keys w n) i = Some st \<and> counters_bounded st"
    using counts_step_bounded new_stats_counters(1) by blast
next
  fix i k assume "i < length keys"
  from mid_cycle_counters [OF this, of env k w n]
  show "\<exists>st. accountsStats
             (snd (process_accounts env (take k keys) 0
                     ((main env keys w n)\<lparr>cycleCount := cycleCount (main env keys w n) + 1\<rparr>))) i
           = Some st \<and> counters_bounded st"
    using counts_step_bounded new_stats_counters(1) by blast
next
  show "keeps counters_bounded (createAgent env tok idx)"
    using createAgent_step counts_step_bounded by (rule keeps_step)
  show "keeps counters_bounded (createRequest env tok idx)"
    using createRequest_step counts_step_bounded by (rule keeps_step)
  show "keeps counters_bounded (executeDailyTasks env td idx)"
    using executeDailyTasks_step counts_step_bounded by (rule keeps_step)
  show "keeps counters_bounded (processAccount env key idx carried)"
    using processAccount_step counts_step_bounded by (rule keeps_step)
  show "keeps counters_bounded (main_iteration env keys w)"
    using main_iteration_rel counts_step_bounded by (rule keeps_accounts_rel)
next
  fix s st st'
  assume "accountsStats s idx = Some st \<and>
      accountsStats (snd (createAgent env tok idx s)) idx = Some st' \<and> txs st' \<noteq> txs st"
  then have a: "accountsStats s idx = Some st"
    "accountsStats (snd (createAgent env tok idx s)) idx = Some st'" "txs st' \<noteq> txs st"
    by simp_all
  note r = createAgent_txs_changed [OF a]
  show "fst (createAgent env tok idx s) = Inr True" using r by simp
  show "txs st' = txs st + 1" using r by simp
  show "agents st' = agents st + 1" using r by simp
  show "\<exists>name desc agentID h.
         answered (createNewAgent_reply env) (CreateNewAgent tok name desc) (Data agentID)
           s (snd (createAgent env tok idx s)) \<and>
         truthy agentID \<and>
         answered (contractCall_reply env) (ContractCall ''addNewAgent'' [agentID, name, desc])
           (Some h) s (snd (createAgent env tok idx s)) \<and>
         truthy h" using r by simp
next
  fix s st st'
  assume "accountsStats s idx = Some st \<and>
      accountsStats (snd (createRequest env tok idx s)) idx = Some st' \<and> txs st' \<noteq> txs st"
  then have a: "accountsStats s idx = Some st"
    "accountsStats (snd (createRequest env tok idx s)) idx = Some st'" "txs st' \<noteq> txs st"
    by simp_all
  note r = createRequest_txs_changed [OF a]
  show "fst (createRequest env tok idx s) = Inr True" using r by simp
  show "txs st' = txs st + 1" using r by simp
  show "requests st' = requests st + 1" using r by simp
  show "\<exists>name desc requestID h.
         answered (createNewRequest_reply env) (CreateNewRequest tok name desc) (Data requestID)
           s (snd (createRequest env tok idx s)) \<and>
         truthy requestID \<and>
         answered (contractCall_reply env) (ContractCall ''addNewRequest'' [requestID, name])
           (Some h) s (snd (createRequest env tok idx s)) \<and>
         truthy h" using r by simp
next
  show "counts_match env idx (createAgent env tok idx)"
    using createAgent_count by (rule counts_matchI)
  show "counts_match env idx (createRequest env tok idx)"
    using createRequest_count by (rule counts_matchI)
  show "counts_match env idx (run_tasks env tok idx d)"
    using run_tasks_count by (rule counts_matchI)
  show "counts_match env idx (executeDailyTasks env td idx)"
    using executeDailyTasks_count by (rule counts_matchI)
  show "counts_match env idx (processAccount env key idx carried)"
    using processAccount_count by (rule counts_matchI)
  show "txs_registered env (run_tasks env tok idx d)"
    using run_tasks_count by (rule txs_registered_count)
  show "txs_registered env (executeDailyTasks env td idx)"
    using executeDailyTasks_count by (rule txs_registered_count)
  show "txs_registered env (processAccount env key idx carried)"
    using processAccount_count by (rule txs_registered_count)
  show "txs_registered env (main_iteration env keys w)"
    by (rule txs_registered_loop [of env "length keys"]) (simp add: main_iteration_loop)
next
  fix s :: state
  assume all: "\<forall>i < length keys. accountsStats s i \<noteq> None"
  have l: "loop_rel env (length keys) s (snd (main_iteration env keys w s))"
    by (rule main_iteration_loop) simp
  from l all have d: "total agents (length keys) (snd (main_iteration env keys w s)) -
        total agents (length keys) s =
        agents_registered env (trace (snd (main_iteration env keys w s))) -
        agents_registered env (trace s)"
    "total requests (length keys) (snd (main_iteration env keys w s)) -
        total requests (length keys) s =
        requests_registered env (trace (snd (main_iteration env keys w s))) -
        requests_registered env (trace s)"
    by (simp_all add: loop_rel_def)
  show "total agents (length keys) (snd (main_iteration env keys w s)) -
        total agents (length keys) s =
        agents_registered env (trace (snd (main_iteration env keys w s))) -
        agents_registered env (trace s)" by (rule d(1))
  show "total requests (length keys) (snd (main_iteration env keys w s)) -
        total requests (length keys) s =
        requests_registered env (trace (snd (main_iteration env keys w s))) -
        requests_registered env (trace s)" by (rule d(2))
  show "total txs (length keys) (snd (main_iteration env keys w s)) - total txs (length keys) s =
        (agents_registered env (trace (snd (main_iteration env keys w s))) -
         agents_registered env (trace s)) +
        (requests_registered env (trace (snd (main_iteration env keys w s))) -
         requests_registered env (trace s))"
    using loop_rel_txs [OF l all] d by simp
next
  show "total agents (length keys) (main env keys w n) =
     agents_registered env (trace (main env keys w n))"
    using main_totals [of keys env w n] by simp
  show "total requests (length keys) (main env keys w n) =
     requests_registered env (trace (main env keys w n))"
    using main_totals [of keys env w n] by simp
  show "total txs (length keys) (main env keys w n) =
     agents_registered env (trace (main env keys w n)) +
     requests_registered env (trace (main env keys w n))"
    using main_totals [of keys env w n] by simp
next
  fix k
  show "total txs (length keys)
          (snd (process_accounts env (take k keys) 0
                  ((main env keys w n)\<lparr>cycleCount := cycleCount (main env keys w n) + 1\<rparr>))) =
        agents_registered env
          (trace (snd (process_accounts env (take k keys) 0
                  ((main env keys w n)\<lparr>cycleCount := cycleCount (main env keys w n) + 1\<rparr>)))) +
        requests_registered env
          (trace (snd (process_accounts env (take k keys) 0
                  ((main env keys w n)\<lparr>cycleCount := cycleCount (main env keys w n) + 1\<rparr>))))"
    using mid_cycle_totals [OF refl, of keys env k w n] by simp
qed

lemma base_createAgent_run:
  "createAgent base_env (JStr ''token'') 0 one_account =
     (Inr True,
      one_account\<lparr>trace := [GenerateAIResponse ''create agent'' ''createAgent'',
          CreateNewAgent (JStr ''token'') (JStr ''name'') (JStr ''text''),
          ContractCall ''addNewAgent'' [JNum 11, JStr ''name'', JStr ''text'']],
        accountsStats := [0 \<mapsto> (new_stats 0)\<lparr>agents := 1, txs := 1\<rparr>]\<rparr>)"
  by (simp add: run_defs base_env_def one_account_def new_stats_def)

lemma base_createRequest_run:
  "createRequest base_env (JStr ''token'') 0 one_account =
     (Inr True,
      one_account\<lparr>trace := [GenerateAIResponse ''create request'' ''createRequest'',
          CreateNewRequest (JStr ''token'') (JStr ''title'') (JStr ''text''),
          ContractCall ''addNewRequest'' [JNum 12, JStr ''title'']],
        accountsStats := [0 \<mapsto> (new_stats 0)\<lparr>requests := 1, txs := 1\<rparr>]\<rparr>)"
  by (simp add: run_defs base_env_def one_account_def new_stats_def)

lemma base_main_trace:
  "trace (main base_env [''0xkey''] 12 (Suc 0)) =
     [GetNonce ''0xabc'', Sign ''0xkey'' (JStr ''nonce''),
      Login ''0xabc'' (JStr ''signature'') (JStr ''nonce''),
      SetInviter (JStr ''token''), VerifyDailyTask (JStr ''token'') ''0xabc'',
      GenerateAIResponse ''create agent'' ''createAgent'',
      CreateNewAgent (JStr ''token'') (JStr ''name'') (JStr ''text''),
      ContractCall ''addNewAgent'' [JNum 11, JStr ''name'', JStr ''text''],
      GenerateAIResponse ''create request'' ''createRequest'',
      CreateNewRequest (JStr ''token'') (JStr ''title'') (JStr ''text''),
      ContractCall ''addNewRequest'' [JNum 12, JStr ''title''],
      GetUserData (JStr ''token''), Sleep 43200000]"
  by (simp add: main_def setup_run main_iteration_def process_accounts_single one_run
      array_get_def bind_eff_def catch_eff_def summary_def countdownTimer_def sleep_def)

lemma base_registered:
  "agents_registered base_env
     [GetNonce ''0xabc'', Sign ''0xkey'' (JStr ''nonce''),
      Login ''0xabc'' (JStr ''signature'') (JStr ''nonce''),
      SetInviter (JStr ''token''), VerifyDailyTask (JStr ''token'') ''0xabc'',
      GenerateAIResponse ''create agent'' ''createAgent'',
      CreateNewAgent (JStr ''token'') (JStr ''name'') (JStr ''text''),
      ContractCall ''addNewAgent'' [JNum 11, JStr ''name'', JStr ''text''],
      GenerateAIResponse ''create request'' ''createRequest'',
      CreateNewRequest (JStr ''token'') (JStr ''title'') (JStr ''text''),
      ContractCall ''addNewRequest'' [JNum 12, JStr ''title''],
      GetUserData (JStr ''token''), Sleep 43200000] = 1"
  "requests_registered base_env
     [GetNonce ''0xabc'', Sign ''0xkey'' (JStr ''nonce''),
      Login ''0xabc'' (JStr ''signature'') (JStr ''nonce''),
      SetInviter (JStr ''token''), VerifyDailyTask (JStr ''token'') ''0xabc'',
      GenerateAIResponse ''create agent'' ''createAgent'',
      CreateNewAgent (JStr ''token'') (JStr ''name'') (JStr ''text''),
      ContractCall ''addNewAgent'' [JNum 11, JStr ''name'', JStr ''text''],
      GenerateAIResponse ''create request'' ''createRequest'',
      CreateNewRequest (JStr ''token'') (JStr ''title'') (JStr ''text''),
      ContractCall ''addNewRequest'' [JNum 12, JStr ''title''],
      GetUserData (JStr ''token''), Sleep 43200000] = 1"
  by code_simp+

lemma base_agent_registered:
  "agents_registered base_env
     [GenerateAIResponse ''create agent'' ''createAgent'',
      CreateNewAgent (JStr ''token'') (JStr ''name'') (JStr ''text''),
      ContractCall ''addNewAgent'' [JNum 11, JStr ''name'', JStr ''text'']] = 1"
  by code_simp

lemma base_new_registration:
  "\<exists>p \<in> set (prefixes
     [GetNonce ''0xabc'', Sign ''0xkey'' (JStr ''nonce''),
      Login ''0xabc'' (JStr ''signature'') (JStr ''nonce''),
      SetInviter (JStr ''token''), VerifyDailyTask (JStr ''token'') ''0xabc'',
      GenerateAIResponse ''create agent'' ''createAgent'',
      CreateNewAgent (JStr ''token'') (JStr ''name'') (JStr ''text''),
      ContractCall ''addNewAgent'' [JNum 11, JStr ''name'', JStr ''text''],
      GenerateAIResponse ''create request'' ''createRequest'',
      CreateNewRequest (JStr ''token'') (JStr ''title'') (JStr ''text''),
      ContractCall ''addNewRequest'' [JNum 12, JStr ''title''],
      GetUserData (JStr ''token''), Sleep 43200000]).
     strict_prefix [] p \<and> (agent_registered base_env p \<or> request_registered base_env p)"
  by code_simp

lemma base_main_start_state:
  "trace (main base_env [''0xkey''] 12 0) = []"
  "accountsStats (main base_env [''0xkey''] 12 0) 0 = Some (new_stats 4600000)"
  by (simp_all add: main_def setup_run)

lemma base_main_new_registration:
  "new_registration base_env (main base_env [''0xkey''] 12 0) (main base_env [''0xkey''] 12 (Suc 0))"
  unfolding new_registration_def base_main_trace base_main_start_state(1)
  by (rule base_new_registration)

theorem counters_bounded_invariant_witness:
  "(0::nat) < length [''0xkey''] \<and>
   accountsStats (main base_env [''0xkey''] 12 (Suc 0)) 0 =
     Some \<lparr>uid = JStr ''uid'', totalPoint = JNum 795, days = JNum 3, agents = 1,
          requests = 1, txs = 2, errors = 0, lastRun = Some 4600000,
          startTime = 4600000, cooldownSeconds = Some 82800\<rparr> \<and>
   counters_bounded \<lparr>uid = JStr ''uid'', totalPoint = JNum 795, days = JNum 3, agents = 1,
          requests = 1, txs = 2, errors = 0, lastRun = Some 4600000,
          startTime = 4600000, cooldownSeconds = Some 82800\<rparr> \<and>
   accountsStats one_account 0 = Some (new_stats 0) \<and> counters_bounded (new_stats 0) \<and>
   accountsStats (snd (createAgent base_env (JStr ''token'') 0 one_account)) 0 =
     Some ((new_stats 0)\<lparr>agents := 1, txs := 1\<rparr>) \<and>
   txs ((new_stats 0)\<lparr>agents := 1, txs := 1\<rparr>) \<noteq> txs (new_stats 0) \<and>
   fst (createAgent base_env (JStr ''token'') 0 one_account) = Inr True \<and>
   accountsStats (snd (createRequest base_env (JStr ''token'') 0 one_account)) 0 =
     Some ((new_stats 0)\<lparr>requests := 1, txs := 1\<rparr>) \<and>
   fst (createRequest base_env (JStr ''token'') 0 one_account) = Inr True \<and>
   agents_registered base_env (trace one_account) = 0 \<and>
   agents_registered base_env (trace (snd (createAgent base_env (JStr ''token'') 0 one_account))) = 1 \<and>
   accountsStats (main base_env [''0xkey''] 12 0) 0 = Some (new_stats 4600000) \<and>
   txs (new_stats 4600000) = 0 \<and>
   new_registration base_env (main base_env [''0xkey''] 12 0) (main base_env [''0xkey''] 12 (Suc 0)) \<and>
   total agents (length [''0xkey'']) (main base_env [''0xkey''] 12 (Suc 0)) = 1 \<and>
   total requests (length [''0xkey'']) (main base_env [''0xkey''] 12 (Suc 0)) = 1 \<and>
   total txs (length [''0xkey'']) (main base_env [''0xkey''] 12 (Suc 0)) = 2 \<and>
   agents_registered base_env (trace (main base_env [''0xkey''] 12 (Suc 0))) = 1 \<and>
   requests_registered base_env (trace (main base_env [''0xkey''] 12 (Suc 0))) = 1"
  using counters_bounded_invariant [of "[''0xkey'']" base_env 12 "Suc 0" "JStr ''token''" 0]
  by (simp add: base_main_run base_createAgent_run base_createRequest_run new_stats_counters
        base_main_trace base_registered base_agent_registered base_main_start_state
        base_main_new_registration total_def)
     (simp add: one_account_def new_stats_def)

text \<open>
  C10. The three counters of every configured account start at 0, and after any number
  of iterations of the main loop \<open>txs = agents + requests\<close>, also in the middle of the next
  iteration, when only the first \<open>k\<close> accounts have been processed. Each function of the program
  that touches the statistics keeps this equation, for every account: \<^verbatim>\<open>createAgent\<close>
  leaves \<open>requests\<close> alone and either leaves \<open>agents\<close> and \<open>txs\<close> alone or adds one to
  both, \<^verbatim>\<open>createRequest\<close> does the same with \<open>requests\<close>, and across
  \<^verbatim>\<open>executeDailyTasks\<close> and \<^verbatim>\<open>processAccount\<close> the growth of \<open>txs\<close> is the growth of
  \<open>agents\<close> plus that of \<open>requests\<close>. The two increments of lines 204-205 (and 262-263)
  are taken as one step: nothing can observe the state between them.
\<close>

theorem counters_exact_invariant:
  "(\<forall>i < length keys.
      \<exists>st. accountsStats (main env keys w 0) i = Some st \<and>
           agents st = 0 \<and> requests st = 0 \<and> txs st = 0) \<and>
   (\<forall>i < length keys.
      \<exists>st. accountsStats (main env keys w n) i = Some st \<and> counters_exact st) \<and>
   (\<forall>i < length keys. \<forall>k.
      \<exists>st. accountsStats
             (snd (process_accounts env (take k keys) 0
                     ((main env keys w n)\<lparr>cycleCount := cycleCount (main env keys w n) + 1\<rparr>))) i
           = Some st \<and> counters_exact st) \<and>
   keeps counters_exact (createAgent env tok idx) \<and>
   keeps counters_exact (createRequest env tok idx) \<and>
   keeps counters_exact (executeDailyTasks env td idx) \<and>
   keeps counters_exact (processAccount env key idx carried) \<and>
   keeps counters_exact (main_iteration env keys w) \<and>
   (\<forall>s st. accountsStats s idx = Some st \<longrightarrow>
      (\<exists>st'. accountsStats (snd (createAgent env tok idx s)) idx = Some st' \<and>
         requests st' = requests st \<and>
         (agents st' = agents st \<and> txs st' = txs st \<or>
          agents st' = agents st + 1 \<and> txs st' = txs st + 1))) \<and>
   (\<forall>s st. accountsStats s idx = Some st \<longrightarrow>
      (\<exists>st'. accountsStats (snd (createRequest env tok idx s)) idx = Some st' \<and>
         agents st' = agents st \<and>
         (requests st' = requests st \<and> txs st' = txs st \<or>
          requests st' = requests st + 1 \<and> txs st' = txs st + 1))) \<and>
   (\<forall>s st. accountsStats s idx = Some st \<longrightarrow>
      (\<exists>st'. accountsStats (snd (executeDailyTasks env td idx s)) idx = Some st' \<and>
         txs st' - txs st = (agents st' - agents st) + (requests st' - requests st))) \<and>
   (\<forall>s st. accountsStats s idx = Some st \<longrightarrow>
      (\<exists>st'. accountsStats (snd (processAccount env key idx carried s)) idx = Some st' \<and>
         txs st' - txs st = (agents st' - agents st) + (requests st' - requests st)))"
proof (intro conjI allI impI)
  fix i assume "i < length keys"
  then show "\<exists>st. accountsStats (main env keys w 0) i = Some st \<and>
           agents st = 0 \<and> requests st = 0 \<and> txs st = 0"
    by (simp add: main_start new_stats_def)
next
  fix i assume "i < length keys"
  from main_counters [OF this, of env w n]
  show "\<exists>st. accountsStats (main env keys w n) i = Some st \<and> counters_exact st"
    using counts_step_exact new_stats_counters(2) by blast
next
  fix i k assume "i < length keys"
  from mid_cycle_counters [OF this, of env k w n]
  show "\<exists>st. accountsStats
             (snd (process_accounts env (take k keys) 0
                     ((main env keys w n)\<lparr>cycleCount := cycleCount (main env keys w n) + 1\<rparr>))) i
           = Some st \<and> counters_exact st"
    using counts_step_exact new_stats_counters(2) by blast
next
  show "keeps counters_exact (createAgent env tok idx)"
    using createAgent_step counts_step_exact by (rule keeps_step)
  show "keeps counters_exact (createRequest env tok idx)"
    using createRequest_step counts_step_exact by (rule keeps_step)
  show "keeps counters_exact (executeDailyTasks env td idx)"
    using executeDailyTasks_step counts_step_exact by (rule keeps_step)
  show "keeps counters_exact (processAccount env key idx carried)"
    using processAccount_step counts_step_exact by (rule keeps_step)
  show "keeps counters_exact (main_iteration env keys w)"
    using main_iteration_rel counts_step_exact by (rule keeps_accounts_rel)
next
  fix s :: state and st assume "accountsStats s idx = Some st"
  then show "\<exists>st'. accountsStats (snd (createAgent env tok idx s)) idx = Some st' \<and>
         requests st' = requests st \<and>
         (agents st' = agents st \<and> txs st' = txs st \<or>
          agents st' = agents st + 1 \<and> txs st' = txs st + 1)"
    by (rule createAgent_counts)
next
  fix s :: state and st assume "accountsStats s idx = Some st"
  then show "\<exists>st'. accountsStats (snd (createRequest env tok idx s)) idx = Some st' \<and>
         agents st' = agents st \<and>
         (requests st' = requests st \<and> txs st' = txs st \<or>
          requests st' = requests st + 1 \<and> txs st' = txs st + 1)"
    by (rule createRequest_counts)
next
  fix s :: state and st assume "accountsStats s idx = Some st"
  from step_counts [OF executeDailyTasks_step this, of env td]
  show "\<exists>st'. accountsStats (snd (executeDailyTasks env td idx s)) idx = Some st' \<and>
         txs st' - txs st = (agents st' - agents st) + (requests st' - requests st)"
    by (auto simp: counts_step_def)
next
  fix s :: state and st assume "accountsStats s idx = Some st"
  from step_counts [OF processAccount_step this, of env key carried]
  show "\<exists>st'. accountsStats (snd (processAccount env key idx carried s)) idx = Some st' \<and>
         txs st' - txs st = (agents st' - agents st) + (requests st' - requests st)"
    by (auto simp: counts_step_def)
qed

lemma base_main_start:
  "accountsStats (main base_env [''0xkey''] 12 0) 0 = Some (new_stats 4600000)"
  by (simp add: main_def setup_run)

theorem counters_exact_invariant_witness:
  "(0::nat) < length [''0xkey''] \<and>
   accountsStats (main base_env [''0xkey''] 12 0) 0 = Some (new_stats 4600000) \<and>
   agents (new_stats 4600000) = 0 \<and> requests (new_stats 4600000) = 0 \<and>
   txs (new_stats 4600000) = 0 \<and>
   map_option (\<lambda>st. (agents st, requests st, txs st))
     (accountsStats (main base_env [''0xkey''] 12 (Suc 0)) 0) = Some (1, 1, 2) \<and>
   accountsStats one_account 0 = Some (new_stats 0) \<and> counters_exact (new_stats 0) \<and>
   map_option (\<lambda>st. (agents st, requests st, txs st))
     (accountsStats (snd (processAccount base_env ''0xkey'' 0 (Some session) one_account)) 0)
     = Some (1, 1, 2)"
  using counters_exact_invariant [of "[''0xkey'']" base_env 12 "Suc 0" "JStr ''token''" 0 session
      "''0xkey''" "Some session"]
  by (simp add: base_main_run base_main_start base_account_run new_stats_counters)
     (simp add: one_account_def new_stats_def)

end
